theory Spec2Isabelle
  imports Complex_Main "HOL-Library.Sublist" "HOL-Library.AList"
begin

section \<open>Data model of core/video\_source.py\<close>

text \<open>
  Python's \<open>queue.Queue(maxsize)\<close>: the buffered items, oldest first, and the bound.
  A bound that is not positive makes the queue unbounded (\<open>full()\<close> is
  \<open>0 < maxsize <= qsize()\<close>).
\<close>

record 'f queue =
  items :: "'f list"
  maxsize :: int

definition new_queue :: "int \<Rightarrow> 'f queue" where
  "new_queue n = \<lparr>items = [], maxsize = n\<rparr>"

definition q_full :: "'f queue \<Rightarrow> bool" where
  "q_full q = (0 < maxsize q \<and> maxsize q \<le> int (length (items q)))"

definition q_empty :: "'f queue \<Rightarrow> bool" where
  "q_empty q = (items q = [])"

text \<open>\<open>get_nowait()\<close>: \<open>None\<close> stands for the exception \<open>queue.Empty\<close>.\<close>

definition q_get_nowait :: "'f queue \<Rightarrow> ('f \<times> 'f queue) option" where
  "q_get_nowait q = (case items q of [] \<Rightarrow> None | x # xs \<Rightarrow> Some (x, q\<lparr>items := xs\<rparr>))"

text \<open>
  What can go wrong in the modelled code: \<open>Thread.join\<close> raises \<open>RuntimeError\<close>
  when a thread joins itself, and a blocking \<open>put\<close> on a full queue that nobody
  empties never returns.
\<close>

datatype fault = RuntimeError | Blocked

definition q_put :: "'f queue \<Rightarrow> 'f \<Rightarrow> fault + 'f queue" where
  "q_put q x = (if q_full q then Inl Blocked else Inr (q\<lparr>items := items q @ [x]\<rparr>))"

text \<open>
  The fields of a \<open>VideoSource\<close>. \<open>has_callback\<close> is \<open>connection_callback is not None\<close>
  and \<open>callback_log\<close> records the arguments of its invocations in order;
  \<open>thread_set\<close> is \<open>_thread is not None\<close> and \<open>workers_launched\<close> counts the calls
  of \<open>Thread.start\<close>. Frames are values of an arbitrary type.
\<close>

record 'f video_source =
  source_url :: string
  camera_id :: string
  resize_width :: int
  resize_height :: int
  initial_buffer_size :: int
  buffer_size :: int
  rtsp_transport :: string
  connection_failures :: int
  frame_drop_rate :: real
  last_network_quality_check :: real
  received_frames_count :: int
  dropped_frames_count :: int
  last_successful_frame_time :: real
  connection_ok :: bool
  is_running :: bool
  is_local_file :: bool
  connection_attempts :: int
  last_connection_time :: real
  has_callback :: bool
  callback_log :: "bool list"
  frame_queue :: "'f queue"
  stop_event :: bool
  thread_set :: bool
  workers_launched :: nat
  fps :: real
  dummy_frame :: 'f

section \<open>Locator classification\<close>

text \<open>\<open>str.lower()\<close> on the ASCII letters; every other character is kept.\<close>

definition lower_char :: "char \<Rightarrow> char" where
  "lower_char c =
     (case map_of (zip ''ABCDEFGHIJKLMNOPQRSTUVWXYZ'' ''abcdefghijklmnopqrstuvwxyz'') c of
        Some d \<Rightarrow> d | None \<Rightarrow> c)"

definition lower :: "string \<Rightarrow> string" where
  "lower s = map lower_char s"

text \<open>\<open>not url.lower().startswith("rtsp://")\<close>\<close>

definition not_rtsp :: "string \<Rightarrow> bool" where
  "not_rtsp url = (\<not> prefix ''rtsp://'' (lower url))"

section \<open>Connection state and its notification\<close>

text \<open>\<open>_notify_connection_change\<close>\<close>

definition notify_connection_change :: "bool \<Rightarrow> 'f video_source \<Rightarrow> 'f video_source" where
  "notify_connection_change is_connected s =
     (if connection_ok s \<noteq> is_connected then
        (let s1 = s\<lparr>connection_ok := is_connected\<rparr>
         in if has_callback s1 then s1\<lparr>callback_log := callback_log s1 @ [is_connected]\<rparr>
            else s1)
      else s)"

text \<open>\<open>start\<close>: the returned flag and the new state.\<close>

definition start :: "'f video_source \<Rightarrow> bool \<times> 'f video_source" where
  "start s =
     (if is_running s then (False, s)
      else if source_url s = [] then (False, s)
      else (True, s\<lparr>is_local_file := not_rtsp (source_url s),
                     stop_event := False,
                     thread_set := True,
                     workers_launched := Suc (workers_launched s),
                     is_running := True\<rparr>))"

text \<open>The loop of \<open>stop\<close> that empties the queue with \<open>get_nowait\<close>.\<close>

fun drain_items :: "'f list \<Rightarrow> 'f list" where
  "drain_items [] = []"
| "drain_items (x # xs) = drain_items xs"

text \<open>
  \<open>stop\<close> is called by the owner of the source and, through
  \<open>switch_transport_protocol\<close>, by the decode worker itself. The join of the worker
  by the owner waits at most five seconds and changes no field. The worker is the
  thread held in \<open>_thread\<close>, and \<open>Thread.join\<close> called by the thread that is joined
  raises \<open>RuntimeError\<close> (cannot join current thread), after the stop event has been
  set and before any other field is written.
\<close>

datatype caller = Owner | Worker

definition stop :: "caller \<Rightarrow> 'f video_source \<Rightarrow> fault + 'f video_source" where
  "stop c s =
     (if \<not> is_running s then Inr s
      else
        (let s1 = s\<lparr>stop_event := True\<rparr>
         in if thread_set s1 \<and> c = Worker then Inl RuntimeError
            else
              (let s2 = s1\<lparr>is_running := False, connection_ok := False\<rparr>;
                   s3 = (if has_callback s2 then s2\<lparr>callback_log := callback_log s2 @ [False]\<rparr>
                         else s2)
               in Inr (s3\<lparr>frame_queue := (frame_queue s3)\<lparr>items := drain_items (items (frame_queue s3))\<rparr>\<rparr>))))"

text \<open>\<open>set_source_url\<close>\<close>

definition set_source_url :: "caller \<Rightarrow> string \<Rightarrow> 'f video_source \<Rightarrow> fault + 'f video_source" where
  "set_source_url c url s =
     (case (if is_running s then stop c s else Inr s) of
        Inl e \<Rightarrow> Inl e
      | Inr s1 \<Rightarrow> Inr (s1\<lparr>source_url := url, is_local_file := not_rtsp url\<rparr>))"

text \<open>
  \<open>get_frame\<close>: the oldest buffered frame; with an empty queue and no producer
  running during the wait, the timeout elapses and a copy of the placeholder frame
  is returned.
\<close>

definition get_frame :: "'f video_source \<Rightarrow> 'f \<times> 'f video_source" where
  "get_frame s =
     (case q_get_nowait (frame_queue s) of
        Some (f, q) \<Rightarrow> (f, s\<lparr>frame_queue := q\<rparr>)
      | None \<Rightarrow> (dummy_frame s, s))"

section \<open>Network quality\<close>

text \<open>\<open>_check_network_quality\<close>, over the reals.\<close>

definition check_network_quality :: "'f video_source \<Rightarrow> real" where
  "check_network_quality s =
     (let frame_rate = fps s;
          drop_rate = frame_drop_rate s;
          connection_stability = max 0 (1 - real_of_int (connection_failures s) / 10);
          score = frame_rate / 30 * 0.3 + (1 - drop_rate) * 0.4 + connection_stability * 0.3
      in max 0 (min 1 score))"

text \<open>
  The formula of the specification: the frame-rate summand is capped at one before it
  is weighted.
\<close>

definition spec_quality_score :: "real \<Rightarrow> real \<Rightarrow> int \<Rightarrow> real" where
  "spec_quality_score f d n =
     max 0 (min 1 (0.3 * min (f / 30) 1 + 0.4 * (1 - d) + 0.3 * max 0 (1 - real_of_int n / 10)))"

text \<open>\<open>_should_switch_transport\<close>\<close>

definition should_switch_transport :: "'f video_source \<Rightarrow> bool" where
  "should_switch_transport s =
     (if 3 \<le> connection_failures s then True
      else if check_network_quality s < 0.3 then True
      else False)"

section \<open>Probes\<close>

text \<open>
  What a probe of the locator with \<open>av.open\<close> and one \<open>decode\<close> step does: it
  raises, it yields no frame, or it yields a first frame. The environment answers
  for a locator and its options.
\<close>

datatype probe = Raises string | NoFrames | FirstFrame

type_synonym network = "string \<Rightarrow> (string \<times> string) list \<Rightarrow> probe"

definition test_connection :: "network \<Rightarrow> 'f video_source \<Rightarrow> bool \<times> string" where
  "test_connection env s =
     (let options = (if prefix ''rtsp://'' (lower (source_url s))
                     then [(''rtsp_transport'', rtsp_transport s)] else [])
      in case env (source_url s) options of
           FirstFrame \<Rightarrow> (True, ''Connection successful using '' @ rtsp_transport s @ '' transport'')
         | NoFrames \<Rightarrow> (False, ''Connected but no frames available'')
         | Raises e \<Rightarrow> (False, ''Connection failed: '' @ e))"

text \<open>
  \<open>get_recommended_transport\<close>; \<open>env1\<close> and \<open>env2\<close> are the network at the time of
  the first and of the second probe.
\<close>

definition get_recommended_transport ::
  "network \<Rightarrow> network \<Rightarrow> 'f video_source \<Rightarrow> string \<times> 'f video_source" where
  "get_recommended_transport env1 env2 s =
     (if is_local_file s then (''tcp'', s)
      else
        (let original_transport = rtsp_transport s;
             s1 = s\<lparr>rtsp_transport := ''tcp''\<rparr>;
             tcp_success = fst (test_connection env1 s1);
             s2 = s1\<lparr>rtsp_transport := ''udp''\<rparr>;
             udp_success = fst (test_connection env2 s2);
             s3 = s2\<lparr>rtsp_transport := original_transport\<rparr>
         in (if tcp_success \<and> \<not> udp_success then ''tcp''
             else if udp_success \<and> \<not> tcp_success then ''udp''
             else if tcp_success \<and> udp_success then ''udp''
             else ''tcp'', s3)))"

section \<open>The decode worker\<close>

text \<open>\<open>switch_transport_protocol\<close>; the pause of one second changes no field.\<close>

definition switch_transport_protocol :: "caller \<Rightarrow> 'f video_source \<Rightarrow> fault + 'f video_source" where
  "switch_transport_protocol c s =
     (if is_local_file s then Inr s
      else
        (let current_protocol = rtsp_transport s;
             s1 = s\<lparr>rtsp_transport := (if current_protocol = ''tcp'' then ''udp'' else ''tcp'')\<rparr>
         in if is_running s1 then
              (case stop c s1 of Inl e \<Rightarrow> Inl e | Inr s2 \<Rightarrow> Inr (snd (start s2)))
            else Inr s1))"

text \<open>
  The body of the loop of \<open>_read_frames\<close> in pieces; the state of the worker is the
  source together with the local variable \<open>backoff_delay\<close>.

  After \<open>av.open\<close> has returned: the notification, the reset of the failure counter
  and the reset of the delay.
\<close>

definition on_open_success :: "'f video_source \<times> int \<Rightarrow> 'f video_source \<times> int" where
  "on_open_success c =
     (case c of (s, backoff_delay) \<Rightarrow>
        ((notify_connection_change True s)\<lparr>connection_failures := 0\<rparr>, 1))"

text \<open>The handler \<open>except Exception\<close>.\<close>

definition on_exception :: "'f video_source \<times> int \<Rightarrow> fault + 'f video_source \<times> int" where
  "on_exception c =
     (case c of (s, backoff_delay) \<Rightarrow>
        (let s1 = notify_connection_change False s;
             s2 = s1\<lparr>connection_failures := connection_failures s1 + 1\<rparr>
         in if \<not> is_local_file s2 \<and> should_switch_transport s2 then
              (case switch_transport_protocol Worker s2 of
                 Inl e \<Rightarrow> Inl e
               | Inr s3 \<Rightarrow> Inr (s3, 1))
            else Inr (s2, backoff_delay)))"

text \<open>
  The reconnection logic at the end of the loop body: the delays slept (none when
  the stop event is set), and the worker's state afterwards. \<open>now\<close> is the clock
  reading stored in \<open>last_connection_time\<close>.
\<close>

definition reconnect_wait ::
  "real \<Rightarrow> 'f video_source \<times> int \<Rightarrow> int list \<times> ('f video_source \<times> int)" where
  "reconnect_wait now c =
     (case c of (s, backoff_delay) \<Rightarrow>
        if \<not> stop_event s then
          ([backoff_delay],
           (s\<lparr>connection_attempts := connection_attempts s + 1, last_connection_time := now\<rparr>,
            min (backoff_delay * 2) 30))
        else ([], (s, backoff_delay)))"

text \<open>
  Loop iterations in which \<open>av.open\<close> raises, one for each clock reading of the
  list: the delays slept, and either the fault that ended the worker or its state.
\<close>

fun consecutive_failures ::
  "real list \<Rightarrow> 'f video_source \<times> int \<Rightarrow> int list \<times> (fault + 'f video_source \<times> int)" where
  "consecutive_failures [] c = ([], Inr c)"
| "consecutive_failures (t # ts) c =
     (if stop_event (fst c) then ([], Inr c)
      else
        (case on_exception c of
           Inl e \<Rightarrow> ([], Inl e)
         | Inr c1 \<Rightarrow>
             (let w = reconnect_wait t c1;
                  r = consecutive_failures ts (snd w)
              in (fst w @ fst r, snd r))))"

text \<open>The options passed to \<open>av.open\<close> by the worker.\<close>

definition open_options :: "'f video_source \<Rightarrow> (string \<times> string) list" where
  "open_options s = (if \<not> is_local_file s then [(''rtsp_transport'', rtsp_transport s)] else [])"

text \<open>The sleep after a frame has been queued, if any.\<close>

definition pacing_sleep :: "real \<Rightarrow> 'f video_source \<Rightarrow> real option" where
  "pacing_sleep video_fps s = (if is_local_file s then Some (1 / video_fps) else None)"

text \<open>
  After the decode loop has ended without an exception: the worker leaves its loop
  (\<open>True\<close>) for a local file and goes on to the reconnection logic otherwise.
\<close>

definition on_stream_end :: "'f video_source \<Rightarrow> bool \<times> 'f video_source" where
  "on_stream_end s =
     (if is_local_file s then (True, notify_connection_change False s)
      else (False, notify_connection_change False s))"

section \<open>The frame buffer\<close>

text \<open>Queueing a decoded frame, dropping the oldest one when the queue is full.\<close>

definition enqueue_frame :: "'f \<Rightarrow> 'f video_source \<Rightarrow> fault + 'f video_source" where
  "enqueue_frame frame_array s =
     (let s1 = (if q_full (frame_queue s) then
                  (case q_get_nowait (frame_queue s) of
                     Some (old, q) \<Rightarrow>
                       s\<lparr>frame_queue := q, dropped_frames_count := dropped_frames_count s + 1\<rparr>
                   | None \<Rightarrow> s)
                else s)
      in case q_put (frame_queue s1) frame_array of
           Inl e \<Rightarrow> Inl e
         | Inr q \<Rightarrow> Inr (s1\<lparr>frame_queue := q\<rparr>))"

fun enqueue_frames :: "'f list \<Rightarrow> 'f video_source \<Rightarrow> fault + 'f video_source" where
  "enqueue_frames [] s = Inr s"
| "enqueue_frames (f # fs) s =
     (case enqueue_frame f s of Inl e \<Rightarrow> Inl e | Inr s1 \<Rightarrow> enqueue_frames fs s1)"

text \<open>\<open>n\<close> calls of \<open>get_frame\<close>: the frames returned, in the order of the calls.\<close>

fun get_frames :: "nat \<Rightarrow> 'f video_source \<Rightarrow> 'f list \<times> 'f video_source" where
  "get_frames 0 s = ([], s)"
| "get_frames (Suc n) s =
     (let r = get_frame s; rs = get_frames n (snd r) in (fst r # fst rs, snd rs))"

section \<open>Adaptive buffer size\<close>

text \<open>
  \<open>int(x)\<close> of a float: truncation toward zero. The products of a capacity with 1.5
  and with 0.8 are taken over the reals.
\<close>

definition py_int :: "real \<Rightarrow> int" where
  "py_int x = (if 0 \<le> x then \<lfloor>x\<rfloor> else \<lceil>x\<rceil>)"

text \<open>\<open>frames[-n:]\<close>\<close>

definition last_slice :: "'f list \<Rightarrow> int \<Rightarrow> 'f list" where
  "last_slice xs n =
     (if 0 < n then drop (length xs - nat n) xs
      else if n = 0 then xs
      else drop (nat (- n)) xs)"

text \<open>The transfer loop of the growing branch: a frame is put only while there is room.\<close>

fun transfer_frames :: "'f list \<Rightarrow> 'f queue \<Rightarrow> fault + 'f queue" where
  "transfer_frames [] q = Inr q"
| "transfer_frames (frame # old) q =
     (if \<not> q_full q then
        (case q_put q frame of Inl e \<Rightarrow> Inl e | Inr q1 \<Rightarrow> transfer_frames old q1)
      else transfer_frames old q)"

text \<open>The transfer loop of the shrinking branch: every frame of the slice is put.\<close>

fun put_all :: "'f list \<Rightarrow> 'f queue \<Rightarrow> fault + 'f queue" where
  "put_all [] q = Inr q"
| "put_all (frame # fs) q =
     (case q_put q frame of Inl e \<Rightarrow> Inl e | Inr q1 \<Rightarrow> put_all fs q1)"

text \<open>The drop rate computed from the two counters, over the reals.\<close>

definition drop_rate :: "'f video_source \<Rightarrow> real" where
  "drop_rate s =
     (let total_frames = received_frames_count s + dropped_frames_count s
      in if 0 < total_frames
         then real_of_int (dropped_frames_count s) / real_of_int total_frames
         else 0)"

text \<open>\<open>_update_buffer_size\<close>\<close>

definition update_buffer_size :: "'f video_source \<Rightarrow> fault + 'f video_source" where
  "update_buffer_size s =
     (if is_local_file s then Inr s
      else
        (let s1 = s\<lparr>frame_drop_rate := drop_rate s\<rparr>;
             r = (if 0.1 < frame_drop_rate s1 then
                    (let new_buffer_size = min (py_int (real_of_int (buffer_size s1) * 1.5)) 60
                     in if new_buffer_size \<noteq> buffer_size s1 then
                          (case transfer_frames (items (frame_queue s1)) (new_queue new_buffer_size) of
                             Inl e \<Rightarrow> Inl e
                           | Inr q \<Rightarrow> Inr (s1\<lparr>frame_queue := q, buffer_size := new_buffer_size\<rparr>))
                        else Inr s1)
                  else if frame_drop_rate s1 < 0.01 \<and> initial_buffer_size s1 < buffer_size s1 then
                    (let new_buffer_size =
                           max (py_int (real_of_int (buffer_size s1) * 0.8)) (initial_buffer_size s1)
                     in if new_buffer_size \<noteq> buffer_size s1 then
                          (case put_all (last_slice (items (frame_queue s1)) new_buffer_size)
                                  (new_queue new_buffer_size) of
                             Inl e \<Rightarrow> Inl e
                           | Inr q \<Rightarrow> Inr (s1\<lparr>frame_queue := q, buffer_size := new_buffer_size\<rparr>))
                        else Inr s1)
                  else Inr s1)
         in case r of
              Inl e \<Rightarrow> Inl e
            | Inr s2 \<Rightarrow> Inr (s2\<lparr>received_frames_count := 0, dropped_frames_count := 0\<rparr>)))"

section \<open>The registry of core/camera\_manager.py\<close>

text \<open>
  \<open>VideoSource.__init__\<close>. \<open>now\<close> is the clock reading and \<open>dummy\<close> the placeholder
  frame drawn for the given geometry.
\<close>

definition init_video_source ::
  "string \<Rightarrow> string \<Rightarrow> int \<Rightarrow> int \<Rightarrow> int \<Rightarrow> bool \<Rightarrow> string \<Rightarrow> real \<Rightarrow> 'f \<Rightarrow> 'f video_source" where
  "init_video_source url cid width height bsize auto_connect transport now dummy =
     (let s = \<lparr>source_url = url, camera_id = cid, resize_width = width, resize_height = height,
                initial_buffer_size = bsize, buffer_size = bsize, rtsp_transport = transport,
                connection_failures = 0, frame_drop_rate = 0, last_network_quality_check = now,
                received_frames_count = 0, dropped_frames_count = 0,
                last_successful_frame_time = 0, connection_ok = False, is_running = False,
                is_local_file = False, connection_attempts = 0, last_connection_time = 0,
                has_callback = False, callback_log = [], frame_queue = new_queue bsize,
                stop_event = False, thread_set = False, workers_launched = 0, fps = 0,
                dummy_frame = dummy\<rparr>
      in if auto_connect then snd (start s) else s)"

text \<open>
  The dictionary \<open>cameras\<close> keeps its keys in insertion order, so it is an association
  list: assignment replaces in place or appends, \<open>next(iter(cameras))\<close> is the first
  key. The calls of the configuration collaborator touch neither field and are left
  out.
\<close>

record 'f camera_manager =
  cameras :: "(string \<times> 'f video_source) list"
  active_camera_id :: "string option"

definition init_camera_manager :: "'f camera_manager" where
  "init_camera_manager = \<lparr>cameras = [], active_camera_id = None\<rparr>"

record 'f camera_args =
  arg_name :: string
  arg_url :: string
  arg_width :: int
  arg_height :: int
  arg_buffer_size :: int
  arg_transport :: string
  arg_auto_connect :: bool
  arg_now :: real
  arg_dummy :: 'f

definition add_camera :: "string \<Rightarrow> 'f camera_args \<Rightarrow> 'f camera_manager \<Rightarrow> 'f camera_manager" where
  "add_camera cid a m =
     (let video_source =
            (init_video_source (arg_url a) cid (arg_width a) (arg_height a) (arg_buffer_size a)
               (arg_auto_connect a) (arg_transport a) (arg_now a) (arg_dummy a))
            \<lparr>has_callback := True\<rparr>;
          m1 = m\<lparr>cameras := AList.update cid video_source (cameras m)\<rparr>
      in if active_camera_id m1 = None then m1\<lparr>active_camera_id := Some cid\<rparr> else m1)"

definition remove_camera :: "string \<Rightarrow> 'f camera_manager \<Rightarrow> fault + bool \<times> 'f camera_manager" where
  "remove_camera cid m =
     (case map_of (cameras m) cid of
        None \<Rightarrow> Inr (False, m)
      | Some camera \<Rightarrow>
          (case stop Owner camera of
             Inl e \<Rightarrow> Inl e
           | Inr stopped \<Rightarrow>
               (let m1 = m\<lparr>cameras := AList.delete cid (cameras m)\<rparr>;
                    m2 = (if active_camera_id m1 = Some cid then
                            (case cameras m1 of
                               (k, v) # rest \<Rightarrow> m1\<lparr>active_camera_id := Some k\<rparr>
                             | [] \<Rightarrow> m1\<lparr>active_camera_id := None\<rparr>)
                          else m1)
                in Inr (True, m2))))"

definition set_active_camera :: "string \<Rightarrow> 'f camera_manager \<Rightarrow> bool \<times> 'f camera_manager" where
  "set_active_camera cid m =
     (case map_of (cameras m) cid of
        None \<Rightarrow> (False, m)
      | Some camera \<Rightarrow> (True, m\<lparr>active_camera_id := Some cid\<rparr>))"

text \<open>Sequences of registry operations.\<close>

datatype 'f registry_op = Add string "'f camera_args" | Remove string | SetActive string

fun registry_step :: "'f registry_op \<Rightarrow> 'f camera_manager \<Rightarrow> fault + 'f camera_manager" where
  "registry_step (Add cid a) m = Inr (add_camera cid a m)"
| "registry_step (Remove cid) m =
     (case remove_camera cid m of Inl e \<Rightarrow> Inl e | Inr r \<Rightarrow> Inr (snd r))"
| "registry_step (SetActive cid) m = Inr (snd (set_active_camera cid m))"

fun registry_run :: "'f registry_op list \<Rightarrow> 'f camera_manager \<Rightarrow> fault + 'f camera_manager" where
  "registry_run [] m = Inr m"
| "registry_run (x # xs) m =
     (case registry_step x m of Inl e \<Rightarrow> Inl e | Inr m1 \<Rightarrow> registry_run xs m1)"

definition active_present :: "'f camera_manager \<Rightarrow> bool" where
  "active_present m =
     (case active_camera_id m of None \<Rightarrow> True | Some k \<Rightarrow> k \<in> fst ` set (cameras m))"

section \<open>The synchronizer of core/sync\_manager.py\<close>

text \<open>
  The callbacks are values of an arbitrary type; \<open>invocations\<close> records each call of
  a callback with its arguments, in order (an exception raised by a callback is
  caught).
\<close>

record ('f, 'c) sync_manager =
  process_callbacks :: "'c list"
  frame_timestamps :: "(string \<times> real) list"
  frame_buffers :: "(string \<times> (real \<times> 'f) list) list"
  max_buffer_size :: int
  sync_processing :: bool
  invocations :: "('c \<times> string \<times> 'f) list"

text \<open>\<open>SyncManager.__init__\<close>; no other code writes \<open>max_buffer_size\<close>.\<close>

definition init_sync_manager :: "('f, 'c) sync_manager" where
  "init_sync_manager =
     \<lparr>process_callbacks = [], frame_timestamps = [], frame_buffers = [],
      max_buffer_size = 30, sync_processing = False, invocations = []\<rparr>"

text \<open>\<open>set_process_callback\<close>\<close>

definition set_process_callback :: "'c \<Rightarrow> ('f, 'c) sync_manager \<Rightarrow> ('f, 'c) sync_manager" where
  "set_process_callback callback y = y\<lparr>process_callbacks := process_callbacks y @ [callback]\<rparr>"

text \<open>The history of a camera, empty when the camera has no entry yet.\<close>

definition history :: "('f, 'c) sync_manager \<Rightarrow> string \<Rightarrow> (real \<times> 'f) list" where
  "history y cid = (case map_of (frame_buffers y) cid of None \<Rightarrow> [] | Some b \<Rightarrow> b)"

text \<open>The trimming of a history that has grown beyond the bound: \<open>buffer.pop(0)\<close>.\<close>

definition capped :: "int \<Rightarrow> 'a list \<Rightarrow> 'a list" where
  "capped n buffer = (if n < int (length buffer) then tl buffer else buffer)"

text \<open>
  The body of the loop of \<open>_capture_all_frames\<close> for one entry of \<open>cameras\<close>;
  \<open>clock cid\<close> is the clock reading taken for the camera.
\<close>

definition capture_frame ::
  "(string \<Rightarrow> real) \<Rightarrow> string \<times> 'f video_source \<Rightarrow>
   'f camera_manager \<times> ('f, 'c) sync_manager \<Rightarrow> 'f camera_manager \<times> ('f, 'c) sync_manager" where
  "capture_frame clock e st =
     (case e of (cid, camera) \<Rightarrow> case st of (m, y) \<Rightarrow>
        if connection_ok camera then
          (let r = get_frame camera;
               m1 = m\<lparr>cameras := AList.update cid (snd r) (cameras m)\<rparr>;
               y1 = y\<lparr>frame_timestamps := AList.update cid (clock cid) (frame_timestamps y)\<rparr>;
               buffer = history y1 cid @ [(clock cid, fst r)];
               trimmed = capped (max_buffer_size y1) buffer
           in (m1, y1\<lparr>frame_buffers := AList.update cid trimmed (frame_buffers y1)\<rparr>))
        else (m, y))"

definition capture_all_frames ::
  "(string \<Rightarrow> real) \<Rightarrow> 'f camera_manager \<times> ('f, 'c) sync_manager \<Rightarrow>
   'f camera_manager \<times> ('f, 'c) sync_manager" where
  "capture_all_frames clock st = fold (capture_frame clock) (cameras (fst st)) st"

text \<open>\<open>_process_frames\<close>\<close>

definition invoke :: "'c \<Rightarrow> string \<times> (real \<times> 'f) list \<Rightarrow> ('f, 'c) sync_manager \<Rightarrow> ('f, 'c) sync_manager" where
  "invoke callback e y =
     (case e of (cid, buffer) \<Rightarrow>
        if buffer \<noteq> [] then y\<lparr>invocations := invocations y @ [(callback, cid, snd (last buffer))]\<rparr>
        else y)"

definition process_frames :: "('f, 'c) sync_manager \<Rightarrow> ('f, 'c) sync_manager" where
  "process_frames y =
     (if frame_buffers y = [] \<or> process_callbacks y = [] then y
      else
        (let y1 = y\<lparr>sync_processing := True\<rparr>;
             y2 = fold (\<lambda>callback. fold (invoke callback) (frame_buffers y1)) (process_callbacks y1) y1
         in y2\<lparr>sync_processing := False\<rparr>))"

text \<open>One iteration of \<open>_sync_loop\<close> up to the computation of the sleep.\<close>

definition sync_iteration ::
  "(string \<Rightarrow> real) \<Rightarrow> 'f camera_manager \<times> ('f, 'c) sync_manager \<Rightarrow>
   'f camera_manager \<times> ('f, 'c) sync_manager" where
  "sync_iteration clock st =
     (let st1 = capture_all_frames clock st in (fst st1, process_frames (snd st1)))"

section \<open>Sequences of calls on one source\<close>

datatype source_op = Start | Stop | SetSourceUrl string

fun source_step :: "source_op \<Rightarrow> 'f video_source \<Rightarrow> fault + 'f video_source" where
  "source_step Start s = Inr (snd (start s))"
| "source_step Stop s = stop Owner s"
| "source_step (SetSourceUrl url) s = set_source_url Owner url s"

fun source_run :: "source_op list \<Rightarrow> 'f video_source \<Rightarrow> fault + 'f video_source" where
  "source_run [] s = Inr s"
| "source_run (x # xs) s =
     (case source_step x s of Inl e \<Rightarrow> Inl e | Inr s1 \<Rightarrow> source_run xs s1)"

section \<open>Vocabulary of the statements\<close>

text \<open>
  The calls one callback receives for a cache: one for each camera with a history
  that is not empty, in the order of the cache, with the last frame of the history.
\<close>

definition calls :: "'c \<Rightarrow> (string \<times> (real \<times> 'f) list) list \<Rightarrow> ('c \<times> string \<times> 'f) list" where
  "calls callback bs =
     map (\<lambda>e. (callback, fst e, snd (last (snd e)))) (filter (\<lambda>e. snd e \<noteq> []) bs)"

section \<open>Concrete sources and registries\<close>

text \<open>
  A network source as the registry creates it, frames being numbers; the same source
  after \<open>start\<close>, before the worker has connected; the same source connected, with
  frames 1 and 2 buffered; a local file after \<open>start\<close>.
\<close>

definition rtsp_source :: "nat video_source" where
  "rtsp_source =
     (init_video_source ''rtsp://camera/stream'' ''main'' 640 480 10 False ''tcp'' 0 0)
       \<lparr>has_callback := True\<rparr>"

definition waiting_source :: "nat video_source" where
  "waiting_source = snd (start rtsp_source)"

definition live_camera :: "nat video_source" where
  "live_camera =
     waiting_source\<lparr>connection_ok := True, frame_queue := \<lparr>items = [1, 2], maxsize = 10\<rparr>\<rparr>"

definition file_source :: "nat video_source" where
  "file_source =
     snd (start ((init_video_source ''clip.mp4'' ''file'' 640 480 10 False ''tcp'' 0 0)
                   \<lparr>has_callback := True\<rparr>))"

text \<open>A registry with a connected and a disconnected camera, and a synchronizer with one callback.\<close>

definition two_cameras :: "nat camera_manager" where
  "two_cameras =
     \<lparr>cameras = [(''cam'', live_camera), (''off'', waiting_source)],
      active_camera_id = Some ''cam''\<rparr>"

definition idle_sync :: "(nat, nat) sync_manager" where
  "idle_sync = set_process_callback 7 init_sync_manager"

text \<open>
  Thirty entries of a history, with clock readings 0 to 29, and the synchronizer
  after thirty iterations have cached them for the connected camera.
\<close>

definition old_entries :: "(real \<times> nat) list" where
  "old_entries = map (\<lambda>i. (real i, i)) [0..<30]"

definition full_sync :: "(nat, nat) sync_manager" where
  "full_sync =
     idle_sync\<lparr>frame_timestamps := [(''cam'', 29)], frame_buffers := [(''cam'', old_entries)]\<rparr>"

text \<open>Network sources at an evaluation of the buffer size, with their counters.\<close>

definition lossy_source :: "int \<Rightarrow> nat video_source" where
  "lossy_source n =
     waiting_source\<lparr>initial_buffer_size := n, buffer_size := n,
                    frame_queue := \<lparr>items = [1, 2, 3], maxsize = n\<rparr>,
                    received_frames_count := 85, dropped_frames_count := 15\<rparr>"

definition stable_source :: "nat video_source" where
  "stable_source =
     waiting_source\<lparr>initial_buffer_size := 30, buffer_size := 45,
                    frame_queue := \<lparr>items = [1, 2, 3], maxsize = 45\<rparr>,
                    received_frames_count := 199, dropped_frames_count := 1\<rparr>"

definition camera_args0 :: "nat camera_args" where
  "camera_args0 =
     \<lparr>arg_name = ''Main Camera'', arg_url = ''rtsp://camera/stream'', arg_width = 640,
      arg_height = 480, arg_buffer_size = 30, arg_transport = ''tcp'', arg_auto_connect = False,
      arg_now = 0, arg_dummy = 0\<rparr>"

definition small_source :: "nat video_source" where
  "small_source = init_video_source ''rtsp://camera/stream'' ''small'' 640 480 3 False ''tcp'' 0 0"

definition crowded_source :: "nat video_source" where
  "crowded_source =
     waiting_source\<lparr>initial_buffer_size := 100, buffer_size := 100,
                    frame_queue := \<lparr>items = [0..<61], maxsize = 100\<rparr>,
                    received_frames_count := 85, dropped_frames_count := 15\<rparr>"

text \<open>
  The network source when its second consecutive failure has been counted, and the
  local file when its fifth has.
\<close>

definition twice_failed :: "nat video_source" where
  "twice_failed = waiting_source\<lparr>connection_failures := 2\<rparr>"

definition failing_file :: "nat video_source" where
  "failing_file = file_source\<lparr>connection_failures := 5\<rparr>"

definition clock0 :: "string \<Rightarrow> real" where
  "clock0 cid = 5"

definition udp_only :: network where
  "udp_only url options =
     (if options = [(''rtsp_transport'', ''udp'')] then FirstFrame else Raises ''timed out'')"

text \<open>
  The capacity after growth in the words of the specification: one and a half times
  the capacity, at most 60.
\<close>

definition spec_grown_capacity :: "int \<Rightarrow> real" where
  "spec_grown_capacity c = min (real_of_int c * 1.5) 60"

section \<open>Network quality score\<close>

text \<open>
  C1, as amended. The network quality score of a source with frame rate \<open>fps\<close>, drop
  rate \<open>frame_drop_rate\<close> and \<open>connection_failures\<close> consecutive failures is
  \<open>0.3 * (fps / 30) + 0.4 * (1 - drop_rate) + 0.3 * max(0, 1 - failures / 10)\<close>
  clamped to the interval from 0 to 1: the frame-rate summand is not capped on its own.
  For a frame rate of at most 30 this is the formula of the specification; at
  (30, 0, 0) the score is 1 and at (0, 1, 10) it is 0.
\<close>

theorem quality_score_formula:
  "check_network_quality s =
     max 0 (min 1 (0.3 * (fps s / 30) + 0.4 * (1 - frame_drop_rate s)
                   + 0.3 * max 0 (1 - real_of_int (connection_failures s) / 10)))
   \<and> (fps s \<le> 30 \<longrightarrow>
        check_network_quality s =
          spec_quality_score (fps s) (frame_drop_rate s) (connection_failures s))
   \<and> (fps s = 30 \<and> frame_drop_rate s = 0 \<and> connection_failures s = 0 \<longrightarrow>
        check_network_quality s = 1)
   \<and> (fps s = 0 \<and> frame_drop_rate s = 1 \<and> connection_failures s = 10 \<longrightarrow>
        check_network_quality s = 0)"
  by (auto simp add: check_network_quality_def spec_quality_score_def Let_def min_def max_def
      algebra_simps)

text \<open>The three cases of C1 at sources with frame rates 30, 0 and 15.\<close>

theorem quality_score_formula_witness:
  "check_network_quality (rtsp_source\<lparr>fps := 30\<rparr>) = 1
   \<and> check_network_quality (rtsp_source\<lparr>frame_drop_rate := 1, connection_failures := 10\<rparr>) = 0
   \<and> check_network_quality (rtsp_source\<lparr>fps := 15\<rparr>) = spec_quality_score 15 0 0"
  using quality_score_formula [of "rtsp_source\<lparr>fps := 30\<rparr>"]
    quality_score_formula [of "rtsp_source\<lparr>frame_drop_rate := 1, connection_failures := 10\<rparr>"]
    quality_score_formula [of "rtsp_source\<lparr>fps := 15\<rparr>"]
  by (simp add: rtsp_source_def init_video_source_def)

text \<open>
  C1 as stated fails above 30 frames per second: a source that ran at 60 frames per
  second with drop rate 0.5 and has failed ten times since scores 0.8, and the formula
  of the specification gives 0.5.
\<close>

theorem quality_score_uncapped_fps:
  "check_network_quality
     (waiting_source\<lparr>fps := 60, frame_drop_rate := 1 / 2, connection_failures := 10\<rparr>) = 4 / 5
   \<and> spec_quality_score 60 (1 / 2) 10 = 1 / 2
   \<and> check_network_quality
       (waiting_source\<lparr>fps := 60, frame_drop_rate := 1 / 2, connection_failures := 10\<rparr>)
      \<noteq> spec_quality_score 60 (1 / 2) 10"
  by (simp add: check_network_quality_def spec_quality_score_def)

section \<open>Connection notifications\<close>

text \<open>
  C2 at its failing input. A source that has been started and has not connected yet
  is stopped by its owner: \<open>connection_ok\<close> is false before and after the call, and the
  callback is invoked once with false.
\<close>

theorem stop_notifies_without_transition:
  "\<not> connection_ok waiting_source
   \<and> callback_log waiting_source = []
   \<and> map_sum id connection_ok (stop Owner waiting_source) = Inr False
   \<and> map_sum id callback_log (stop Owner waiting_source) = Inr [False]"
  by (simp add: waiting_source_def rtsp_source_def init_video_source_def start_def stop_def
      Let_def)

section \<open>Starting a source\<close>

text \<open>
  C6. \<open>start\<close> returns true exactly when the source is not running and its locator
  is not empty; it then clears the stop event, launches one worker and sets
  \<open>is_running\<close>. Otherwise it returns false and changes nothing. A second \<open>start\<close>
  right after a first returns false and launches no worker.
\<close>

theorem start_contract:
  "(fst (start s) \<longleftrightarrow> \<not> is_running s \<and> source_url s \<noteq> [])
   \<and> (fst (start s) \<longrightarrow>
        \<not> stop_event (snd (start s)) \<and> is_running (snd (start s))
        \<and> workers_launched (snd (start s)) = Suc (workers_launched s))
   \<and> (\<not> fst (start s) \<longrightarrow> snd (start s) = s)
   \<and> \<not> fst (start (snd (start s)))
   \<and> workers_launched (snd (start (snd (start s)))) = workers_launched (snd (start s))"
  by (simp add: start_def)

text \<open>C6 at a source with a locator, and at the same source without one.\<close>

theorem start_contract_witness:
  "\<not> is_running rtsp_source \<and> source_url rtsp_source \<noteq> []
   \<and> fst (start rtsp_source)
   \<and> is_running (snd (start rtsp_source))
   \<and> workers_launched (snd (start rtsp_source)) = 1
   \<and> \<not> fst (start (snd (start rtsp_source)))
   \<and> \<not> fst (start (rtsp_source\<lparr>source_url := []\<rparr>))
   \<and> snd (start (rtsp_source\<lparr>source_url := []\<rparr>)) = rtsp_source\<lparr>source_url := []\<rparr>"
  using start_contract [of rtsp_source] start_contract [of "rtsp_source\<lparr>source_url := []\<rparr>"]
  by (simp add: rtsp_source_def init_video_source_def)

section \<open>Locator classification\<close>

lemma stop_owner_total: "\<exists>s'. stop Owner s = Inr s'"
  by (simp add: stop_def Let_def)

lemma stop_owner_result:
  "\<exists>s'. stop Owner s = Inr s' \<and> \<not> is_running s' \<and> source_url s' = source_url s
     \<and> is_local_file s' = is_local_file s"
  by (simp add: stop_def Let_def)

lemma set_source_url_result:
  "\<exists>s'. set_source_url Owner u s = Inr s' \<and> source_url s' = u \<and> is_local_file s' = not_rtsp u
     \<and> \<not> is_running s'"
proof (cases "is_running s")
  case True
  from stop_owner_result [of s] obtain s1 where
    "stop Owner s = Inr s1" "\<not> is_running s1" by blast
  then show ?thesis using True by (simp add: set_source_url_def)
next
  case False
  then show ?thesis by (simp add: set_source_url_def)
qed

lemma start_consistent:
  "(is_running s \<longrightarrow> is_local_file s = not_rtsp (source_url s)) \<Longrightarrow>
   (is_running (snd (start s)) \<longrightarrow>
      is_local_file (snd (start s)) = not_rtsp (source_url (snd (start s))))"
  by (simp add: start_def)

lemma source_step_consistent:
  assumes "is_running s \<longrightarrow> is_local_file s = not_rtsp (source_url s)"
  shows "\<exists>s'. source_step x s = Inr s'
     \<and> (is_running s' \<longrightarrow> is_local_file s' = not_rtsp (source_url s'))"
proof (cases x)
  case Start
  then show ?thesis using start_consistent [OF assms] by simp
next
  case Stop
  then show ?thesis using stop_owner_result [of s] by auto
next
  case (SetSourceUrl u)
  then show ?thesis using set_source_url_result [of u s] by auto
qed

lemma source_run_consistent:
  "(is_running s \<longrightarrow> is_local_file s = not_rtsp (source_url s)) \<Longrightarrow>
   \<exists>s'. source_run ops s = Inr s'
     \<and> (is_running s' \<longrightarrow> is_local_file s' = not_rtsp (source_url s'))"
proof (induction ops arbitrary: s)
  case Nil
  then show ?case by simp
next
  case (Cons x xs)
  from source_step_consistent [OF Cons.prems, of x] obtain s1 where
    "source_step x s = Inr s1" "is_running s1 \<longrightarrow> is_local_file s1 = not_rtsp (source_url s1)"
    by blast
  with Cons.IH [of s1] show ?case by simp
qed

lemma source_run_append:
  "source_run (xs @ ys) s =
     (case source_run xs s of Inl e \<Rightarrow> Inl e | Inr s1 \<Rightarrow> source_run ys s1)"
  by (induction xs arbitrary: s) (auto split: sum.splits)

lemma init_consistent:
  "is_running (init_video_source url cid w h b a t now d) \<longrightarrow>
   is_local_file (init_video_source url cid w h b a t now d)
     = not_rtsp (source_url (init_video_source url cid w h b a t now d))"
  by (simp add: init_video_source_def start_def Let_def)

lemma http_not_rtsp: "not_rtsp (''http://'' @ rest)"
  by (simp add: not_rtsp_def lower_def lower_char_def)

text \<open>
  C9. After any sequence of \<open>start\<close>, \<open>stop\<close> and \<open>set_source_url\<close> on a new source
  that ends with a \<open>start\<close> and leaves a locator that is not empty, or that ends with
  \<open>set_source_url\<close>, \<open>is_local_file\<close> holds exactly when the locator in lower case
  does not begin with \<open>rtsp://\<close>. A source with the flag set is opened without a
  transport option, sleeps after each frame and leaves its loop at the end of the
  stream; every locator that begins with \<open>http://\<close> is classified so.
\<close>

theorem locator_classification:
  "(\<exists>s'. source_run (ops @ [x]) (init_video_source url cid w h b a t now d) = Inr s'
      \<and> (x = Start \<and> source_url s' \<noteq> [] \<longrightarrow>
           is_local_file s' = (\<not> prefix ''rtsp://'' (lower (source_url s'))))
      \<and> (\<forall>u. x = SetSourceUrl u \<longrightarrow>
           source_url s' = u \<and> is_local_file s' = (\<not> prefix ''rtsp://'' (lower u)))
      \<and> (is_local_file s' \<longrightarrow>
           open_options s' = [] \<and> pacing_sleep v s' = Some (1 / v) \<and> fst (on_stream_end s')))
   \<and> not_rtsp (''http://'' @ rest)"
proof -
  let ?s0 = "init_video_source url cid w h b a t now d"
  from source_run_consistent [of ?s0 ops, OF init_consistent] obtain s1 where
    s1: "source_run ops ?s0 = Inr s1"
        "is_running s1 \<longrightarrow> is_local_file s1 = not_rtsp (source_url s1)"
    by blast
  have loc: "is_local_file s' \<longrightarrow>
             open_options s' = [] \<and> pacing_sleep v s' = Some (1 / v) \<and> fst (on_stream_end s')"
    for s' :: "'a video_source"
    by (simp add: open_options_def pacing_sleep_def on_stream_end_def)
  have r: "source_run (ops @ [x]) ?s0 = source_step x s1"
    using s1(1) by (simp add: source_run_append split: sum.splits)
  have "\<exists>s'. source_step x s1 = Inr s'
      \<and> (x = Start \<and> source_url s' \<noteq> [] \<longrightarrow> is_local_file s' = not_rtsp (source_url s'))
      \<and> (\<forall>u. x = SetSourceUrl u \<longrightarrow> source_url s' = u \<and> is_local_file s' = not_rtsp u)"
  proof (cases x)
    case Start
    then show ?thesis using s1(2) by (simp add: start_def)
  next
    case Stop
    then show ?thesis using stop_owner_total [of s1] by auto
  next
    case (SetSourceUrl u)
    then show ?thesis using set_source_url_result [of u s1] by auto
  qed
  then show ?thesis unfolding r using loc http_not_rtsp [of rest]
    by (auto simp add: not_rtsp_def)
qed

text \<open>
  C9 at a source created for an \<open>http://\<close> locator and started, and at a source
  whose locator is replaced by an upper-case \<open>RTSP://\<close> locator.
\<close>

theorem locator_classification_witness:
  "(\<exists>s'. source_run [Start] (init_video_source ''http://camera/video'' ''web'' 640 480 10 False ''tcp'' 0 (0::nat))
            = Inr s'
      \<and> is_local_file s' \<and> open_options s' = [] \<and> pacing_sleep 25 s' = Some (1 / 25)
      \<and> fst (on_stream_end s'))
   \<and> (\<exists>s'. source_run [Start, SetSourceUrl ''RTSP://camera/stream'']
              (init_video_source ''http://camera/video'' ''web'' 640 480 10 False ''tcp'' 0 (0::nat))
            = Inr s'
      \<and> source_url s' = ''RTSP://camera/stream'' \<and> \<not> is_local_file s')"
proof -
  have a: "source_url (snd (start s)) = source_url s" for s :: "nat video_source"
    by (simp add: start_def)
  have b: "source_url (init_video_source ''http://camera/video'' ''web'' 640 480 10 False ''tcp'' 0 (0::nat))
             = ''http://camera/video''"
    by (simp add: init_video_source_def)
  show ?thesis
    using locator_classification [of "[]" Start "''http://camera/video''" "''web''" 640 480 10 False
        "''tcp''" 0 "0::nat" 25 "[]"]
      locator_classification [of "[Start]" "SetSourceUrl ''RTSP://camera/stream''"
        "''http://camera/video''" "''web''" 640 480 10 False "''tcp''" 0 "0::nat" 25 "[]"]
    by (auto simp add: a b lower_def lower_char_def)
qed

section \<open>Transport recommendation\<close>

text \<open>
  C10. \<open>get_recommended_transport\<close> leaves every field of the source as it was, the
  transport included. For a network source with an \<open>rtsp://\<close> locator the answer is
  \<open>udp\<close> exactly when the probe made under \<open>udp\<close> yields a frame.
\<close>

theorem recommended_transport_restores:
  "snd (get_recommended_transport env1 env2 s) = s
   \<and> (\<not> is_local_file s \<and> prefix ''rtsp://'' (lower (source_url s)) \<longrightarrow>
        fst (get_recommended_transport env1 env2 s) =
          (if env2 (source_url s) [(''rtsp_transport'', ''udp'')] = FirstFrame
           then ''udp'' else ''tcp''))"
  by (auto simp add: get_recommended_transport_def test_connection_def Let_def
      split: probe.splits)

text \<open>C10 at a network source configured for \<open>tcp\<close> on a network where only \<open>udp\<close> works.\<close>

theorem recommended_transport_restores_witness:
  "\<not> is_local_file rtsp_source \<and> prefix ''rtsp://'' (lower (source_url rtsp_source))
   \<and> get_recommended_transport udp_only udp_only rtsp_source = (''udp'', rtsp_source)
   \<and> rtsp_transport rtsp_source = ''tcp''"
proof -
  have u: "source_url rtsp_source = ''rtsp://camera/stream''" "\<not> is_local_file rtsp_source"
    "rtsp_transport rtsp_source = ''tcp''"
    by (simp_all add: rtsp_source_def init_video_source_def)
  have l: "prefix ''rtsp://'' (lower ''rtsp://camera/stream'')"
    by (simp add: lower_def lower_char_def)
  show ?thesis
    using recommended_transport_restores [of udp_only udp_only rtsp_source] u l
    by (simp add: udp_only_def prod_eq_iff)
qed

section \<open>Reconnection delays\<close>

lemma on_exception_local:
  "is_local_file s \<Longrightarrow>
   \<exists>s'. on_exception (s, bd) = Inr (s', bd) \<and> is_local_file s' \<and> stop_event s' = stop_event s"
  by (simp add: on_exception_def Let_def notify_connection_change_def)

lemma min_double:
  assumes "0 < (bd::int)"
  shows "min (min (bd * 2) 30 * 2 ^ i) 30 = min (bd * 2 ^ Suc i) 30"
proof (cases "bd * 2 \<le> 30")
  case True
  then show ?thesis by (simp add: mult.assoc min_def)
next
  case False
  have one: "(1::int) \<le> 2 ^ i" by simp
  have a: "min (bd * 2) 30 = 30" using False by simp
  have b: "30 * 1 \<le> (30::int) * 2 ^ i" using one by (intro mult_left_mono) simp_all
  have c: "30 * 2 ^ i \<le> (bd * 2) * 2 ^ i" using False by (intro mult_right_mono) simp_all
  have d: "bd * 2 ^ Suc i = (bd * 2) * 2 ^ i" by simp
  show ?thesis unfolding a d using b c by linarith
qed

lemma local_delays:
  "0 < bd \<Longrightarrow> bd \<le> 30 \<Longrightarrow> is_local_file s \<Longrightarrow> \<not> stop_event s \<Longrightarrow>
   fst (consecutive_failures ts (s, bd)) = map (\<lambda>i. min (bd * 2 ^ i) 30) [0..<length ts]"
proof (induction ts arbitrary: s bd)
  case Nil
  then show ?case by simp
next
  case (Cons t ts)
  from on_exception_local [OF Cons.prems(3), of bd] obtain s1 where
    s1: "on_exception (s, bd) = Inr (s1, bd)" "is_local_file s1" "stop_event s1 = stop_event s"
    by blast
  define s2 where
    "s2 = s1\<lparr>connection_attempts := connection_attempts s1 + 1, last_connection_time := t\<rparr>"
  have w: "reconnect_wait t (s1, bd) = ([bd], (s2, min (bd * 2) 30))"
    using s1 Cons.prems by (simp add: reconnect_wait_def s2_def)
  have p: "0 < min (bd * 2) 30" "min (bd * 2) 30 \<le> 30" "is_local_file s2" "\<not> stop_event s2"
    using Cons.prems s1 by (simp_all add: s2_def)
  note ih = Cons.IH [OF p]
  have m: "map (\<lambda>i. min (bd * 2 ^ i) 30) [0..<length (t # ts)]
     = bd # map (\<lambda>i. min (min (bd * 2) 30 * 2 ^ i) 30) [0..<length ts]"
    using Cons.prems(1,2) min_double [OF Cons.prems(1)]
    by (simp add: upt_rec [of 0] map_Suc_upt [symmetric] del: upt_Suc power_Suc)
  have r: "consecutive_failures (t # ts) (s, bd) =
     (bd # fst (consecutive_failures ts (s2, min (bd * 2) 30)),
      snd (consecutive_failures ts (s2, min (bd * 2) 30)))"
    using w s1 Cons.prems(4) by (simp add: Let_def)
  show ?case unfolding r m using ih by simp
qed

lemma no_switch_early:
  assumes "0 \<le> fps s" "frame_drop_rate s \<le> 1 / 2" "connection_failures s \<le> 2"
  shows "\<not> should_switch_transport s"
proof -
  define A where "A = fps s / 30 * 0.3"
  define B where "B = (1 - frame_drop_rate s) * 0.4"
  define C where "C = max 0 (1 - real_of_int (connection_failures s) / 10) * 0.3"
  have c: "real_of_int (connection_failures s) \<le> 2" using assms(3) by simp
  have "0 \<le> A" using assms(1) by (simp add: A_def)
  moreover have "2 / 10 \<le> B" using assms(2) by (simp add: B_def)
  moreover have "24 / 100 \<le> C" using c by (simp add: C_def max_def)
  ultimately have "3 / 10 \<le> A + B + C" by linarith
  then have "3 / 10 \<le> max 0 (min 1 (A + B + C))" by (simp add: min_def max_def)
  moreover have "check_network_quality s = max 0 (min 1 (A + B + C))"
    by (simp only: check_network_quality_def Let_def A_def B_def C_def)
  ultimately have "\<not> check_network_quality s < 0.3" by simp
  then show ?thesis using assms(3) by (simp add: should_switch_transport_def)
qed

lemma live_failure_step:
  assumes "connection_failures s \<le> 1" "0 \<le> fps s" "frame_drop_rate s \<le> 1 / 2"
  shows "\<exists>s'. on_exception (s, bd) = Inr (s', bd)
     \<and> connection_failures s' = connection_failures s + 1
     \<and> stop_event s' = stop_event s \<and> fps s' = fps s
     \<and> frame_drop_rate s' = frame_drop_rate s
     \<and> is_local_file s' = is_local_file s"
proof -
  define s2 where "s2 = (notify_connection_change False s)\<lparr>connection_failures :=
      connection_failures (notify_connection_change False s) + 1\<rparr>"
  have f: "connection_failures s2 = connection_failures s + 1" "fps s2 = fps s"
     "frame_drop_rate s2 = frame_drop_rate s" "stop_event s2 = stop_event s"
     "is_local_file s2 = is_local_file s"
    by (simp_all add: s2_def notify_connection_change_def Let_def)
  have "\<not> should_switch_transport s2"
    using assms f by (intro no_switch_early) simp_all
  then have "on_exception (s, bd) = Inr (s2, bd)"
    by (simp add: on_exception_def Let_def s2_def)
  then show ?thesis using f by blast
qed

lemma live_delays_prefix:
  fixes s :: "'f video_source"
  assumes "\<not> is_local_file s" "\<not> stop_event s" "connection_failures s = 0" "0 \<le> fps s"
    "frame_drop_rate s \<le> 1 / 2"
  shows "\<exists>s4 :: 'f video_source. \<not> is_local_file s4 \<and> connection_failures s4 = 2
     \<and> fst (consecutive_failures (t1 # t2 # ts) (s, 1))
         = 1 # 2 # fst (consecutive_failures ts (s4, 4))"
proof -
  from live_failure_step [of s 1] assms obtain s1 where
    s1: "on_exception (s, 1) = Inr (s1, 1)" "connection_failures s1 = 1"
        "stop_event s1 = stop_event s" "fps s1 = fps s" "frame_drop_rate s1 = frame_drop_rate s"
        "is_local_file s1 = is_local_file s"
    by auto
  define s2 where
    "s2 = s1\<lparr>connection_attempts := connection_attempts s1 + 1, last_connection_time := t1\<rparr>"
  have w1: "reconnect_wait t1 (s1, 1) = ([1], (s2, 2))"
    using s1 assms by (simp add: reconnect_wait_def s2_def)
  have "connection_failures s2 \<le> 1" "0 \<le> fps s2" "frame_drop_rate s2 \<le> 1 / 2"
    using s1 assms by (simp_all add: s2_def)
  from live_failure_step [OF this, of 2] obtain s3 where
    s3: "on_exception (s2, 2) = Inr (s3, 2)" "stop_event s3 = stop_event s2"
      "connection_failures s3 = connection_failures s2 + 1" "is_local_file s3 = is_local_file s2"
    by auto
  define s4 where
    "s4 = s3\<lparr>connection_attempts := connection_attempts s3 + 1, last_connection_time := t2\<rparr>"
  have ns: "\<not> stop_event s2" "\<not> stop_event s3" using s1 s3 assms by (simp_all add: s2_def)
  have w2: "reconnect_wait t2 (s3, 2) = ([2], (s4, 4))"
    using ns by (simp add: reconnect_wait_def s4_def)
  have p: "\<not> is_local_file s4" "connection_failures s4 = 2"
    using s1 s3 assms by (simp_all add: s4_def s2_def)
  have r: "fst (consecutive_failures (t1 # t2 # ts) (s, 1))
         = 1 # 2 # fst (consecutive_failures ts (s4, 4))"
    using assms(2) s1(1) w1 ns s3(1) w2 by (simp add: Let_def)
  show ?thesis by (rule exI [of _ s4]) (intro conjI p r)
qed

lemma stopped_no_delays: "stop_event s \<Longrightarrow> fst (consecutive_failures ts (s, bd)) = []"
  by (cases ts) simp_all

lemma switch_policy_met:
  assumes "\<not> is_local_file s" "2 \<le> connection_failures s"
  shows "\<not> is_local_file
            ((notify_connection_change False s)\<lparr>connection_failures := connection_failures s + 1\<rparr>)
     \<and> should_switch_transport
            ((notify_connection_change False s)\<lparr>connection_failures := connection_failures s + 1\<rparr>)"
  using assms by (simp add: should_switch_transport_def notify_connection_change_def Let_def)

lemma on_exception_switch:
  assumes "\<not> is_local_file s" "2 \<le> connection_failures s" "on_exception (s, bd) = Inr c"
  shows "snd c = 1"
proof -
  have n: "connection_failures (notify_connection_change False s) = connection_failures s"
    by (simp add: notify_connection_change_def Let_def)
  show ?thesis
    using assms(3) switch_policy_met [OF assms(1,2)]
    by (auto simp add: on_exception_def Let_def n split: sum.splits)
qed

lemma third_delay_not_four:
  assumes "\<not> is_local_file s" "2 \<le> connection_failures s"
  shows "take 1 (fst (consecutive_failures ts (s, bd))) \<noteq> [4]"
proof (cases ts)
  case Nil
  then show ?thesis by simp
next
  case (Cons t ts')
  show ?thesis
  proof (cases "stop_event s")
    case True
    then show ?thesis using stopped_no_delays [of s ts bd] by simp
  next
    case False
    show ?thesis
    proof (cases "on_exception (s, bd)")
      case (Inl e)
      then show ?thesis using Cons False by simp
    next
      case (Inr c)
      obtain s3 where c: "c = (s3, 1)"
        using on_exception_switch [OF assms Inr] by (cases c) simp
      show ?thesis
      proof (cases "stop_event s3")
        case True
        then have "reconnect_wait t (s3, 1) = ([], (s3, 1))" by (simp add: reconnect_wait_def)
        then show ?thesis
          using Cons False Inr c stopped_no_delays [OF True, of ts' 1] by (simp add: Let_def)
      next
        case ns: False
        then have "fst (reconnect_wait t (s3, 1)) = [1]" by (simp add: reconnect_wait_def)
        then show ?thesis using Cons False Inr c by (simp add: Let_def)
      qed
    qed
  qed
qed

text \<open>
  C3, as amended. A retry sleeps the current delay and then sets the delay to twice
  its value, at most 30, as long as the failure does not meet the transport-switch
  policy. So consecutive connection failures of a local-file source produce the delays
  1, 2, 4, 8, 16, 30, 30, and so on. A live source with no earlier failure, a frame
  rate that is not negative and a drop rate of at most one half sleeps 1 and 2 after
  its first two failures; every failure of a live source after two counted ones
  meets the transport-switch policy in the handler, and the third delay is not 4.
  A successful connection resets the delay to 1.
\<close>

theorem backoff_delays:
  "(\<not> stop_event s \<longrightarrow>
      fst (reconnect_wait t (s, bd)) = [bd] \<and> snd (snd (reconnect_wait t (s, bd))) = min (bd * 2) 30)
   \<and> (is_local_file s \<and> \<not> stop_event s \<longrightarrow>
        fst (consecutive_failures ts (s, 1)) = map (\<lambda>i. min (2 ^ i) 30) [0..<length ts])
   \<and> (\<not> is_local_file s \<and> \<not> stop_event s \<and> connection_failures s = 0 \<and> 0 \<le> fps s
        \<and> frame_drop_rate s \<le> 1 / 2 \<longrightarrow>
        take 2 (fst (consecutive_failures (t1 # t2 # ts) (s, 1))) = [1, 2]
        \<and> take 3 (fst (consecutive_failures (t1 # t2 # ts) (s, 1))) \<noteq> [1, 2, 4])
   \<and> (\<not> is_local_file s \<and> 2 \<le> connection_failures s \<longrightarrow>
        \<not> is_local_file
            ((notify_connection_change False s)\<lparr>connection_failures := connection_failures s + 1\<rparr>)
        \<and> should_switch_transport
            ((notify_connection_change False s)\<lparr>connection_failures := connection_failures s + 1\<rparr>))
   \<and> snd (on_open_success (s, bd)) = 1"
proof -
  have a: "\<not> stop_event s \<longrightarrow>
      fst (reconnect_wait t (s, bd)) = [bd] \<and> snd (snd (reconnect_wait t (s, bd))) = min (bd * 2) 30"
    by (simp add: reconnect_wait_def)
  have b: "is_local_file s \<and> \<not> stop_event s \<longrightarrow>
        fst (consecutive_failures ts (s, 1)) = map (\<lambda>i. min (2 ^ i) 30) [0..<length ts]"
    using local_delays [of 1 s ts] by simp
  have c: "take 2 (fst (consecutive_failures (t1 # t2 # ts) (s, 1))) = [1, 2]
        \<and> take 3 (fst (consecutive_failures (t1 # t2 # ts) (s, 1))) \<noteq> [1, 2, 4]"
    if h: "\<not> is_local_file s" "\<not> stop_event s" "connection_failures s = 0" "0 \<le> fps s"
      "frame_drop_rate s \<le> 1 / 2"
  proof -
    from live_delays_prefix [OF h, of t1 t2 ts] obtain s4 :: "'a video_source" where
      s4: "\<not> is_local_file s4" "connection_failures s4 = 2"
        "fst (consecutive_failures (t1 # t2 # ts) (s, 1))
           = 1 # 2 # fst (consecutive_failures ts (s4, 4))"
      by blast
    have "take 1 (fst (consecutive_failures ts (s4, 4))) \<noteq> [4]"
      using third_delay_not_four [of s4 ts 4] s4(1,2) by simp
    then show ?thesis unfolding s4(3) by (simp add: numeral_3_eq_3 numeral_2_eq_2)
  qed
  have d: "\<not> is_local_file s \<and> 2 \<le> connection_failures s \<longrightarrow>
        \<not> is_local_file
            ((notify_connection_change False s)\<lparr>connection_failures := connection_failures s + 1\<rparr>)
        \<and> should_switch_transport
            ((notify_connection_change False s)\<lparr>connection_failures := connection_failures s + 1\<rparr>)"
    using switch_policy_met [of s] by blast
  have e: "snd (on_open_success (s, bd)) = 1"
    by (simp add: on_open_success_def)
  from a b c d e show ?thesis by blast
qed

text \<open>
  C3 at a local file that cannot be opened seven times in a row and at its fifth
  wait, at a network source that fails three times in a row, at the network source
  with two failures counted, and at a connection that succeeds with the delay at 30.
\<close>

theorem backoff_delays_witness:
  "is_local_file file_source \<and> \<not> stop_event file_source
   \<and> fst (consecutive_failures [1, 2, 3, 4, 5, 6, 7] (file_source, 1)) = [1, 2, 4, 8, 16, 30, 30]
   \<and> \<not> stop_event failing_file
   \<and> fst (reconnect_wait 9 (failing_file, 16)) = [16]
   \<and> snd (snd (reconnect_wait 9 (failing_file, 16))) = 30
   \<and> \<not> is_local_file waiting_source \<and> \<not> stop_event waiting_source
   \<and> connection_failures waiting_source = 0 \<and> 0 \<le> fps waiting_source
   \<and> frame_drop_rate waiting_source \<le> 1 / 2
   \<and> take 2 (fst (consecutive_failures [1, 2, 3] (waiting_source, 1))) = [1, 2]
   \<and> take 3 (fst (consecutive_failures [1, 2, 3] (waiting_source, 1))) \<noteq> [1, 2, 4]
   \<and> \<not> is_local_file twice_failed \<and> 2 \<le> connection_failures twice_failed
   \<and> should_switch_transport
        ((notify_connection_change False twice_failed)\<lparr>connection_failures := 3\<rparr>)
   \<and> snd (on_open_success (failing_file, 30)) = 1"
proof -
  have f: "is_local_file file_source" "\<not> stop_event file_source"
    by (simp_all add: file_source_def init_video_source_def start_def not_rtsp_def lower_def
        lower_char_def)
  have ff: "\<not> stop_event failing_file" using f by (simp add: failing_file_def)
  have w: "\<not> is_local_file waiting_source" "\<not> stop_event waiting_source"
    "connection_failures waiting_source = 0" "fps waiting_source = 0"
    "frame_drop_rate waiting_source = 0"
    by (simp_all add: waiting_source_def rtsp_source_def init_video_source_def start_def
        not_rtsp_def lower_def lower_char_def)
  have tf: "\<not> is_local_file twice_failed" "connection_failures twice_failed = 2"
    using w by (simp_all add: twice_failed_def)
  have n: "map (\<lambda>i. min (2 ^ i) (30::int)) [0..<7] = [1, 2, 4, 8, 16, 30, 30]"
    by (simp add: upt_rec)
  note local = backoff_delays [of file_source 0 1 "[1, 2, 3, 4, 5, 6, 7]" 0 0]
  note wait = backoff_delays [of failing_file 9 16 "[]" 0 0]
  note live = backoff_delays [of waiting_source 0 1 "[3]" 1 2]
  note third = backoff_delays [of twice_failed 0 1 "[]" 0 0]
  note ok = backoff_delays [of failing_file 0 30 "[]" 0 0]
  have 1: "fst (consecutive_failures [1, 2, 3, 4, 5, 6, 7] (file_source, 1))
             = [1, 2, 4, 8, 16, 30, 30]"
    using local f n by simp
  have 2: "fst (reconnect_wait 9 (failing_file, 16)) = [16]"
    "snd (snd (reconnect_wait 9 (failing_file, 16))) = 30"
    using wait ff by simp_all
  have 3: "take 2 (fst (consecutive_failures [1, 2, 3] (waiting_source, 1))) = [1, 2]"
    "take 3 (fst (consecutive_failures [1, 2, 3] (waiting_source, 1))) \<noteq> [1, 2, 4]"
    using live w by simp_all
  have 4: "should_switch_transport
        ((notify_connection_change False twice_failed)\<lparr>connection_failures := 3\<rparr>)"
    using third tf by simp
  have 5: "snd (on_open_success (failing_file, 30)) = 1"
    using ok by simp
  show ?thesis using f ff w tf 1 2 3 4 5 by simp
qed

text \<open>
  C3 as stated fails for a live source at the third consecutive failure: the
  failure count reaches 3, the handler takes the transport-switch path, and the third
  delay is not 4.
\<close>

theorem backoff_third_failure_live:
  "\<not> is_local_file waiting_source
   \<and> fst (consecutive_failures [1, 2, 3] (waiting_source, 1)) \<noteq> [1, 2, 4]"
  by (simp add: waiting_source_def rtsp_source_def init_video_source_def start_def stop_def Let_def
      on_exception_def reconnect_wait_def notify_connection_change_def
      should_switch_transport_def check_network_quality_def switch_transport_protocol_def
      new_queue_def not_rtsp_def lower_def lower_char_def)

section \<open>The bounded frame buffer\<close>

lemma enqueue_frame_step:
  assumes "0 < maxsize (frame_queue s)"
    "int (length (items (frame_queue s))) \<le> maxsize (frame_queue s)"
  shows "\<exists>s'. enqueue_frame f s = Inr s'
     \<and> maxsize (frame_queue s') = maxsize (frame_queue s)
     \<and> items (frame_queue s') =
         (if int (length (items (frame_queue s))) = maxsize (frame_queue s)
          then tl (items (frame_queue s)) @ [f] else items (frame_queue s) @ [f])
     \<and> dropped_frames_count s' =
         (if int (length (items (frame_queue s))) = maxsize (frame_queue s)
          then dropped_frames_count s + 1 else dropped_frames_count s)
     \<and> dummy_frame s' = dummy_frame s"
proof (cases "items (frame_queue s)")
  case Nil
  then show ?thesis using assms
    by (simp add: enqueue_frame_def q_full_def q_put_def q_get_nowait_def)
next
  case (Cons x xs)
  then show ?thesis using assms
    by (simp add: enqueue_frame_def q_full_def q_put_def q_get_nowait_def)
qed

lemma enqueue_frames_append:
  "enqueue_frames (fs @ gs) s =
     (case enqueue_frames fs s of Inl e \<Rightarrow> Inl e | Inr s1 \<Rightarrow> enqueue_frames gs s1)"
  by (induction fs arbitrary: s) (auto split: sum.splits)

lemma enqueue_frames_bounded:
  assumes "0 < maxsize (frame_queue s)"
    "int (length (items (frame_queue s))) \<le> maxsize (frame_queue s)"
  shows "\<exists>s'. enqueue_frames fs s = Inr s'
     \<and> maxsize (frame_queue s') = maxsize (frame_queue s)
     \<and> int (length (items (frame_queue s'))) \<le> maxsize (frame_queue s')"
  using assms
proof (induction fs arbitrary: s)
  case Nil
  then show ?case by simp
next
  case (Cons f fs)
  from enqueue_frame_step [OF Cons.prems, of f] obtain s1 where
    s1: "enqueue_frame f s = Inr s1" "maxsize (frame_queue s1) = maxsize (frame_queue s)"
        "items (frame_queue s1) =
         (if int (length (items (frame_queue s))) = maxsize (frame_queue s)
          then tl (items (frame_queue s)) @ [f] else items (frame_queue s) @ [f])"
    by blast
  have "int (length (items (frame_queue s1))) \<le> maxsize (frame_queue s1)"
    using s1 Cons.prems by (auto split: if_splits)
  with Cons.IH [of s1] s1 Cons.prems(1) show ?case by simp
qed

lemma enqueue_frames_from_empty:
  assumes "0 < maxsize (frame_queue s)" "items (frame_queue s) = []"
  shows "\<exists>s'. enqueue_frames fs s = Inr s'
     \<and> maxsize (frame_queue s') = maxsize (frame_queue s)
     \<and> items (frame_queue s') = drop (length fs - nat (maxsize (frame_queue s))) fs
     \<and> dropped_frames_count s' =
         dropped_frames_count s + int (length fs - nat (maxsize (frame_queue s)))
     \<and> dummy_frame s' = dummy_frame s"
proof (induction fs rule: rev_induct)
  case Nil
  then show ?case using assms by simp
next
  case (snoc f fs)
  then obtain s1 where
    s1: "enqueue_frames fs s = Inr s1" "maxsize (frame_queue s1) = maxsize (frame_queue s)"
        "items (frame_queue s1) = drop (length fs - nat (maxsize (frame_queue s))) fs"
        "dropped_frames_count s1 =
           dropped_frames_count s + int (length fs - nat (maxsize (frame_queue s)))"
        "dummy_frame s1 = dummy_frame s"
    by blast
  define c where "c = nat (maxsize (frame_queue s))"
  have c: "0 < c" "maxsize (frame_queue s) = int c" using assms(1) by (simp_all add: c_def)
  have b: "0 < maxsize (frame_queue s1)"
    "int (length (items (frame_queue s1))) \<le> maxsize (frame_queue s1)"
    using s1 c by simp_all
  from enqueue_frame_step [OF b, of f] obtain s2 where
    s2: "enqueue_frame f s1 = Inr s2" "maxsize (frame_queue s2) = maxsize (frame_queue s1)"
        "items (frame_queue s2) =
         (if int (length (items (frame_queue s1))) = maxsize (frame_queue s1)
          then tl (items (frame_queue s1)) @ [f] else items (frame_queue s1) @ [f])"
        "dropped_frames_count s2 =
         (if int (length (items (frame_queue s1))) = maxsize (frame_queue s1)
          then dropped_frames_count s1 + 1 else dropped_frames_count s1)"
        and d: "dummy_frame s2 = dummy_frame s1"
    by blast
  have r: "enqueue_frames (fs @ [f]) s = Inr s2"
    using s1(1) s2(1) by (simp add: enqueue_frames_append)
  show ?case
  proof (cases "c \<le> length fs")
    case True
    then have full: "int (length (items (frame_queue s1))) = maxsize (frame_queue s1)"
      using s1 c by simp
    have "tl (drop (length fs - c) fs) @ [f] = drop (Suc (length fs) - c) (fs @ [f])"
      using True c(1) by (simp add: drop_Suc [symmetric] tl_drop Suc_diff_le)
    then show ?thesis using r s2 s1 full True c d by (simp add: Suc_diff_le)
  next
    case False
    then have nf: "int (length (items (frame_queue s1))) \<noteq> maxsize (frame_queue s1)"
      using s1 c by simp
    show ?thesis using r s2 s1 nf False c d by simp
  qed
qed

lemma get_frames_items:
  "fst (get_frames (length (items (frame_queue s))) s) = items (frame_queue s)"
proof (induction "items (frame_queue s)" arbitrary: s)
  case Nil
  then show ?case by simp
next
  case (Cons x xs)
  have g: "get_frame s = (x, s\<lparr>frame_queue := (frame_queue s)\<lparr>items := xs\<rparr>\<rparr>)"
    using Cons.hyps(2) [symmetric] by (simp add: get_frame_def q_get_nowait_def)
  have "xs = items (frame_queue (s\<lparr>frame_queue := (frame_queue s)\<lparr>items := xs\<rparr>\<rparr>))" by simp
  from Cons.hyps(1) [OF this] show ?case
    using g Cons.hyps(2) [symmetric] by (simp add: Let_def)
qed

text \<open>
  C5. For a buffer with a positive capacity that holds at most that many frames,
  every sequence of pushes returns and leaves at most capacity frames buffered, the
  capacity unchanged. Pushing capacity + k frames with k > 0 into an empty buffer
  adds k to the drop counter and leaves the last capacity frames in their order,
  which is the order in which \<open>get_frame\<close> returns them.
\<close>

theorem buffer_bounded_fifo:
  "(0 < maxsize (frame_queue s)
      \<and> int (length (items (frame_queue s))) \<le> maxsize (frame_queue s) \<longrightarrow>
      (\<exists>s'. enqueue_frames fs s = Inr s'
         \<and> maxsize (frame_queue s') = maxsize (frame_queue s)
         \<and> int (length (items (frame_queue s'))) \<le> maxsize (frame_queue s')))
   \<and> (0 < maxsize (frame_queue s) \<and> items (frame_queue s) = []
        \<and> length fs = nat (maxsize (frame_queue s)) + k \<and> 0 < k \<longrightarrow>
      (\<exists>s'. enqueue_frames fs s = Inr s'
         \<and> dropped_frames_count s' = dropped_frames_count s + int k
         \<and> items (frame_queue s') = drop k fs
         \<and> fst (get_frames (nat (maxsize (frame_queue s))) s') = drop k fs))"
proof -
  have a: "\<exists>s'. enqueue_frames fs s = Inr s'
         \<and> dropped_frames_count s' = dropped_frames_count s + int k
         \<and> items (frame_queue s') = drop k fs
         \<and> fst (get_frames (nat (maxsize (frame_queue s))) s') = drop k fs"
    if h: "0 < maxsize (frame_queue s)" "items (frame_queue s) = []"
      "length fs = nat (maxsize (frame_queue s)) + k"
  proof -
    from enqueue_frames_from_empty [OF h(1,2), of fs] obtain s' where
      s': "enqueue_frames fs s = Inr s'"
        "items (frame_queue s') = drop (length fs - nat (maxsize (frame_queue s))) fs"
        "dropped_frames_count s' =
           dropped_frames_count s + int (length fs - nat (maxsize (frame_queue s)))"
      by blast
    have i: "items (frame_queue s') = drop k fs" using s'(2) h(3) by simp
    have l: "length (items (frame_queue s')) = nat (maxsize (frame_queue s))"
      using i h(3) by simp
    have "fst (get_frames (nat (maxsize (frame_queue s))) s') = drop k fs"
      using get_frames_items [of s'] i l by simp
    then show ?thesis using s' i h(3) by simp
  qed
  show ?thesis using enqueue_frames_bounded [of s fs] a by blast
qed

text \<open>C5 at a new source of capacity 3 into which five frames are pushed.\<close>

theorem buffer_bounded_fifo_witness:
  "0 < maxsize (frame_queue small_source) \<and> items (frame_queue small_source) = []
   \<and> map_sum id dropped_frames_count (enqueue_frames [1, 2, 3, 4, 5] small_source) = Inr 2
   \<and> map_sum id (items \<circ> frame_queue) (enqueue_frames [1, 2, 3, 4, 5] small_source)
       = Inr [3, 4, 5]
   \<and> map_sum id (fst \<circ> get_frames 3) (enqueue_frames [1, 2, 3, 4, 5] small_source)
       = Inr [3, 4, 5]"
proof -
  have s: "maxsize (frame_queue small_source) = 3" "items (frame_queue small_source) = []"
    "dropped_frames_count small_source = 0"
    by (simp_all add: small_source_def init_video_source_def new_queue_def)
  show ?thesis
    using buffer_bounded_fifo [of small_source "[1, 2, 3, 4, 5]" 2] s by auto
qed

section \<open>Adaptive buffer size\<close>

lemma py_int_grow: "0 \<le> b \<Longrightarrow> py_int (real_of_int b * 1.5) = (b * 3) div 2"
proof -
  assume "0 \<le> b"
  have "real_of_int b * 1.5 = real_of_int (b * 3) / real_of_int 2" by simp
  then have "\<lfloor>real_of_int b * 1.5\<rfloor> = (b * 3) div 2"
    by (simp only: floor_divide_of_int_eq)
  then show ?thesis using \<open>0 \<le> b\<close> by (simp add: py_int_def)
qed

lemma py_int_shrink: "0 \<le> b \<Longrightarrow> py_int (real_of_int b * 0.8) = (b * 4) div 5"
proof -
  assume "0 \<le> b"
  have "real_of_int b * 0.8 = real_of_int (b * 4) / real_of_int 5" by simp
  then have "\<lfloor>real_of_int b * 0.8\<rfloor> = (b * 4) div 5"
    by (simp only: floor_divide_of_int_eq)
  then show ?thesis using \<open>0 \<le> b\<close> by (simp add: py_int_def)
qed

lemma py_int_grow_n: "0 \<le> b \<Longrightarrow> py_int (real_of_int b * 3 / 2) = (b * 3) div 2"
  using py_int_grow [of b] by simp

lemma py_int_shrink_n: "0 \<le> b \<Longrightarrow> py_int (real_of_int b * 4 / 5) = (b * 4) div 5"
  using py_int_shrink [of b] by simp

lemma transfer_frames_take:
  "0 < maxsize q \<Longrightarrow> int (length (items q)) \<le> maxsize q \<Longrightarrow>
   transfer_frames xs q = Inr (q\<lparr>items := items q @ take (nat (maxsize q) - length (items q)) xs\<rparr>)"
proof (induction xs arbitrary: q)
  case Nil
  then show ?case by simp
next
  case (Cons x xs)
  show ?case
  proof (cases "q_full q")
    case True
    then have "nat (maxsize q) - length (items q) = 0" by (simp add: q_full_def nat_le_iff)
    then show ?thesis using True Cons by simp
  next
    case False
    define q1 where "q1 = q\<lparr>items := items q @ [x]\<rparr>"
    have lt: "length (items q) < nat (maxsize q)" using False Cons.prems by (simp add: q_full_def)
    have p: "0 < maxsize q1" "int (length (items q1)) \<le> maxsize q1"
      using Cons.prems lt by (simp_all add: q1_def)
    have "nat (maxsize q) - length (items q) = Suc (nat (maxsize q) - length (items q1))"
      using lt by (simp add: q1_def)
    then show ?thesis using False Cons.IH [OF p]
      by (simp add: q_put_def q1_def)
  qed
qed

lemma transfer_frames_new:
  "0 < n \<Longrightarrow> transfer_frames xs (new_queue n) = Inr \<lparr>items = take (nat n) xs, maxsize = n\<rparr>"
  using transfer_frames_take [of "new_queue n" xs] by (simp add: new_queue_def)

lemma put_all_fits:
  "0 < maxsize q \<Longrightarrow> int (length (items q) + length xs) \<le> maxsize q \<Longrightarrow>
   put_all xs q = Inr (q\<lparr>items := items q @ xs\<rparr>)"
proof (induction xs arbitrary: q)
  case Nil
  then show ?case by simp
next
  case (Cons x xs)
  define q1 where "q1 = q\<lparr>items := items q @ [x]\<rparr>"
  have nf: "\<not> q_full q" using Cons.prems by (simp add: q_full_def)
  have p: "0 < maxsize q1" "int (length (items q1) + length xs) \<le> maxsize q1"
    using Cons.prems by (simp_all add: q1_def)
  show ?case using nf Cons.IH [OF p] by (simp add: q_put_def q1_def)
qed

lemma put_all_new:
  assumes n: "0 < n"
  shows "put_all (last_slice xs n) (new_queue n)
     = Inr \<lparr>items = drop (length xs - nat n) xs, maxsize = n\<rparr>"
proof -
  have l: "last_slice xs n = drop (length xs - nat n) xs" using n by (simp add: last_slice_def)
  have "int (length (items (new_queue n :: 'a queue)) + length (drop (length xs - nat n) xs))
          \<le> maxsize (new_queue n :: 'a queue)"
    using n by (simp add: new_queue_def)
  from put_all_fits [OF _ this] n show ?thesis unfolding l by (simp add: new_queue_def)
qed

lemma update_grow:
  assumes "\<not> is_local_file s" "0 < buffer_size s" "0.1 < drop_rate s"
  shows "\<exists>s'. update_buffer_size s = Inr s'
     \<and> buffer_size s' = min ((buffer_size s * 3) div 2) 60
     \<and> frame_queue s' =
        (if buffer_size s' = buffer_size s then frame_queue s
         else \<lparr>items = take (nat (buffer_size s')) (items (frame_queue s)),
               maxsize = buffer_size s'\<rparr>)"
proof -
  define n where "n = min ((buffer_size s * 3) div 2) 60"
  have n: "0 < n" using assms(2) by (simp add: n_def)
  have g: "py_int (real_of_int (buffer_size s) * 3 / 2) = (buffer_size s * 3) div 2"
    using assms(2) by (intro py_int_grow_n) simp
  show ?thesis
    using assms transfer_frames_new [OF n, of "items (frame_queue s)"]
    unfolding update_buffer_size_def
    by (simp add: Let_def g n_def [symmetric])
qed

lemma update_shrink:
  assumes "\<not> is_local_file s" "0 < initial_buffer_size s"
    "initial_buffer_size s < buffer_size s" "drop_rate s < 0.01"
  shows "\<exists>s'. update_buffer_size s = Inr s'
     \<and> buffer_size s' = max ((buffer_size s * 4) div 5) (initial_buffer_size s)
     \<and> buffer_size s' \<noteq> buffer_size s
     \<and> frame_queue s' =
         \<lparr>items = drop (length (items (frame_queue s)) - nat (buffer_size s'))
                    (items (frame_queue s)),
          maxsize = buffer_size s'\<rparr>"
proof -
  define n where "n = max ((buffer_size s * 4) div 5) (initial_buffer_size s)"
  have n: "0 < n" using assms(2) by (simp add: n_def)
  have lt: "(buffer_size s * 4) div 5 < buffer_size s" using assms(2,3) by presburger
  have ne: "n \<noteq> buffer_size s" using assms(3) lt by (simp add: n_def max_def)
  have g: "py_int (real_of_int (buffer_size s) * 4 / 5) = (buffer_size s * 4) div 5"
    using assms(2,3) by (intro py_int_shrink_n) simp
  have r: "\<not> 0.1 < drop_rate s" using assms(4) by simp
  show ?thesis
    using assms r ne put_all_new [OF n, of "items (frame_queue s)"]
    unfolding update_buffer_size_def
    by (simp add: Let_def g n_def [symmetric])
qed

text \<open>
  C7, as amended. At an evaluation of a network source with a positive capacity:
  if the drop rate is above 0.10, the new capacity is the integer part of
  capacity * 1.5, at most 60, and when it differs from the old one the buffer is
  rebuilt with the buffered frames in their order as far as the new capacity has
  room (all of them when they are at most that many). If the drop rate is below 0.01
  and the capacity exceeds a positive baseline, the new capacity is the integer part
  of capacity * 0.8, at least the baseline, and only the most recent new-capacity
  frames are kept. A drop rate of 0.15 at capacity 30 gives 45; a drop rate of 0.005
  at capacity 45 with baseline 30 gives 36.
\<close>

theorem buffer_resize:
  "(\<not> is_local_file s \<and> 0 < buffer_size s \<and> 0.1 < drop_rate s \<longrightarrow>
      (\<exists>s'. update_buffer_size s = Inr s'
         \<and> buffer_size s' = min ((buffer_size s * 3) div 2) 60
         \<and> (buffer_size s' \<noteq> buffer_size s \<longrightarrow>
              frame_queue s' = \<lparr>items = take (nat (buffer_size s')) (items (frame_queue s)),
                                maxsize = buffer_size s'\<rparr>)
         \<and> (buffer_size s' = buffer_size s \<longrightarrow> frame_queue s' = frame_queue s)
         \<and> (int (length (items (frame_queue s))) \<le> buffer_size s' \<longrightarrow>
              items (frame_queue s') = items (frame_queue s))
         \<and> (buffer_size s = 30 \<longrightarrow> buffer_size s' = 45)))
   \<and> (\<not> is_local_file s \<and> 0 < initial_buffer_size s \<and> initial_buffer_size s < buffer_size s
        \<and> drop_rate s < 0.01 \<longrightarrow>
      (\<exists>s'. update_buffer_size s = Inr s'
         \<and> buffer_size s' = max ((buffer_size s * 4) div 5) (initial_buffer_size s)
         \<and> frame_queue s' =
             \<lparr>items = drop (length (items (frame_queue s)) - nat (buffer_size s'))
                        (items (frame_queue s)),
              maxsize = buffer_size s'\<rparr>
         \<and> (buffer_size s = 45 \<and> initial_buffer_size s = 30 \<longrightarrow> buffer_size s' = 36)))"
proof -
  have a: "\<exists>s'. update_buffer_size s = Inr s'
         \<and> buffer_size s' = min ((buffer_size s * 3) div 2) 60
         \<and> (buffer_size s' \<noteq> buffer_size s \<longrightarrow>
              frame_queue s' = \<lparr>items = take (nat (buffer_size s')) (items (frame_queue s)),
                                maxsize = buffer_size s'\<rparr>)
         \<and> (buffer_size s' = buffer_size s \<longrightarrow> frame_queue s' = frame_queue s)
         \<and> (int (length (items (frame_queue s))) \<le> buffer_size s' \<longrightarrow>
              items (frame_queue s') = items (frame_queue s))
         \<and> (buffer_size s = 30 \<longrightarrow> buffer_size s' = 45)"
    if h: "\<not> is_local_file s" "0 < buffer_size s" "0.1 < drop_rate s"
  proof -
    from update_grow [OF h] obtain s' where
      s': "update_buffer_size s = Inr s'" "buffer_size s' = min ((buffer_size s * 3) div 2) 60"
        "frame_queue s' =
          (if buffer_size s' = buffer_size s then frame_queue s
           else \<lparr>items = take (nat (buffer_size s')) (items (frame_queue s)),
                 maxsize = buffer_size s'\<rparr>)"
      by blast
    have "int (length (items (frame_queue s))) \<le> buffer_size s' \<longrightarrow>
              items (frame_queue s') = items (frame_queue s)"
      using s'(3) by (simp add: nat_le_iff)
    moreover have "buffer_size s = 30 \<longrightarrow> buffer_size s' = 45" using s'(2) by simp
    ultimately show ?thesis using s' by auto
  qed
  have b: "\<exists>s'. update_buffer_size s = Inr s'
         \<and> buffer_size s' = max ((buffer_size s * 4) div 5) (initial_buffer_size s)
         \<and> frame_queue s' =
             \<lparr>items = drop (length (items (frame_queue s)) - nat (buffer_size s'))
                        (items (frame_queue s)),
              maxsize = buffer_size s'\<rparr>
         \<and> (buffer_size s = 45 \<and> initial_buffer_size s = 30 \<longrightarrow> buffer_size s' = 36)"
    if h: "\<not> is_local_file s" "0 < initial_buffer_size s" "initial_buffer_size s < buffer_size s"
      "drop_rate s < 0.01"
  proof -
    from update_shrink [OF h] obtain s' where
      s': "update_buffer_size s = Inr s'"
        "buffer_size s' = max ((buffer_size s * 4) div 5) (initial_buffer_size s)"
        "frame_queue s' =
             \<lparr>items = drop (length (items (frame_queue s)) - nat (buffer_size s'))
                        (items (frame_queue s)),
              maxsize = buffer_size s'\<rparr>"
      by blast
    have "buffer_size s = 45 \<and> initial_buffer_size s = 30 \<longrightarrow> buffer_size s' = 36"
      using s'(2) by simp
    then show ?thesis using s' by blast
  qed
  show ?thesis using a b by blast
qed

text \<open>
  C7 at a network source of capacity 30 that dropped 15 of 100 frames, and at a
  network source of capacity 45 and baseline 30 that dropped 1 of 200 frames.
\<close>

theorem buffer_resize_witness:
  "\<not> is_local_file (lossy_source 30) \<and> buffer_size (lossy_source 30) = 30
   \<and> drop_rate (lossy_source 30) = 15 / 100
   \<and> map_sum id buffer_size (update_buffer_size (lossy_source 30)) = Inr 45
   \<and> map_sum id (items \<circ> frame_queue) (update_buffer_size (lossy_source 30)) = Inr [1, 2, 3]
   \<and> \<not> is_local_file stable_source \<and> buffer_size stable_source = 45
   \<and> initial_buffer_size stable_source = 30
   \<and> drop_rate stable_source = 5 / 1000
   \<and> map_sum id buffer_size (update_buffer_size stable_source) = Inr 36
   \<and> map_sum id (items \<circ> frame_queue) (update_buffer_size stable_source) = Inr [1, 2, 3]"
proof -
  have w: "\<not> is_local_file waiting_source"
    by (simp add: waiting_source_def rtsp_source_def init_video_source_def start_def
        not_rtsp_def lower_def lower_char_def)
  have l: "\<not> is_local_file (lossy_source 30)" "buffer_size (lossy_source 30) = 30"
    "drop_rate (lossy_source 30) = 15 / 100" "items (frame_queue (lossy_source 30)) = [1, 2, 3]"
    using w by (simp_all add: lossy_source_def drop_rate_def)
  have t: "\<not> is_local_file stable_source" "buffer_size stable_source = 45"
    "initial_buffer_size stable_source = 30" "drop_rate stable_source = 5 / 1000"
    "items (frame_queue stable_source) = [1, 2, 3]"
    using w by (simp_all add: stable_source_def drop_rate_def)
  show ?thesis
    using buffer_resize [of "lossy_source 30"] buffer_resize [of stable_source] l t
    by auto
qed

text \<open>
  C7 as stated fails in two ways. At capacity 5 and drop rate 0.15 the new capacity
  is 7, and one and a half times the capacity is 7.5. At capacity 100 with 61 frames
  buffered and drop rate 0.15 the new capacity is 60 and 60 frames are transferred.
\<close>

theorem buffer_resize_truncates:
  "drop_rate (lossy_source 5) = 15 / 100
   \<and> map_sum id buffer_size (update_buffer_size (lossy_source 5)) = Inr 7
   \<and> spec_grown_capacity 5 = 15 / 2
   \<and> spec_grown_capacity 5 \<noteq> real_of_int 7
   \<and> length (items (frame_queue crowded_source)) = 61
   \<and> map_sum id buffer_size (update_buffer_size crowded_source) = Inr 60
   \<and> map_sum id (length \<circ> items \<circ> frame_queue) (update_buffer_size crowded_source) = Inr 60"
proof -
  have w: "\<not> is_local_file waiting_source"
    by (simp add: waiting_source_def rtsp_source_def init_video_source_def start_def
        not_rtsp_def lower_def lower_char_def)
  have l: "\<not> is_local_file (lossy_source 5)" "buffer_size (lossy_source 5) = 5"
    "drop_rate (lossy_source 5) = 15 / 100"
    using w by (simp_all add: lossy_source_def drop_rate_def)
  have c: "\<not> is_local_file crowded_source" "buffer_size crowded_source = 100"
    "drop_rate crowded_source = 15 / 100" "items (frame_queue crowded_source) = [0..<61]"
    using w by (simp_all add: crowded_source_def drop_rate_def)
  have g: "spec_grown_capacity 5 = 15 / 2" by (simp add: spec_grown_capacity_def)
  from update_grow [of "lossy_source 5"] l
  have a: "map_sum id buffer_size (update_buffer_size (lossy_source 5)) = Inr 7" by auto
  from update_grow [of crowded_source] c
  have b: "map_sum id buffer_size (update_buffer_size crowded_source) = Inr 60"
    "map_sum id (length \<circ> items \<circ> frame_queue) (update_buffer_size crowded_source) = Inr 60"
    by auto
  show ?thesis using l(3) a b c(4) g by simp
qed

section \<open>The active camera of the registry\<close>

lemma keys_delete: "fst ` set (AList.delete k al) = fst ` set al - {k}"
proof -
  have "set (map fst (AList.delete k al)) = set (map fst al) - {k}"
    by (simp only: delete_keys set_removeAll)
  then show ?thesis by simp
qed

lemma map_of_keys: "(map_of al k = None) = (k \<notin> fst ` set al)"
  by (simp add: map_of_eq_None_iff)

lemma map_of_key: "map_of al k = Some v \<Longrightarrow> k \<in> fst ` set al"
  using map_of_keys [of al k] by simp

lemma add_camera_active: "active_present m \<Longrightarrow> active_present (add_camera cid a m)"
  by (auto simp add: active_present_def add_camera_def Let_def dom_update split: option.splits)

lemma set_active_camera_active:
  "active_present m \<Longrightarrow> active_present (snd (set_active_camera cid m))"
  by (auto simp add: active_present_def set_active_camera_def
      split: option.splits dest: map_of_key)

lemma remove_camera_result:
  assumes "map_of (cameras m) cid = Some camera"
  shows "\<exists>m'. remove_camera cid m = Inr (True, m')
     \<and> cameras m' = AList.delete cid (cameras m)
     \<and> active_camera_id m' =
         (if active_camera_id m = Some cid
          then (case cameras m' of [] \<Rightarrow> None | e # rest \<Rightarrow> Some (fst e))
          else active_camera_id m)"
proof -
  obtain stopped where "stop Owner camera = Inr stopped" using stop_owner_total by blast
  then show ?thesis using assms
    by (auto simp add: remove_camera_def Let_def split: list.splits)
qed

lemma remove_camera_active:
  assumes "active_present m" "remove_camera cid m = Inr (b, m')"
  shows "active_present m'"
proof (cases "map_of (cameras m) cid")
  case None
  then show ?thesis using assms by (simp add: remove_camera_def)
next
  case (Some camera)
  from remove_camera_result [OF Some] assms(2) have
    c: "cameras m' = AList.delete cid (cameras m)" and
    a: "active_camera_id m' =
         (if active_camera_id m = Some cid
          then (case cameras m' of [] \<Rightarrow> None | e # rest \<Rightarrow> Some (fst e))
          else active_camera_id m)"
    by auto
  show ?thesis
  proof (cases "active_camera_id m = Some cid")
    case True
    then show ?thesis using a by (auto simp add: active_present_def split: list.splits)
  next
    case False
    then show ?thesis using a c assms(1)
      by (auto simp add: active_present_def keys_delete split: option.splits)
  qed
qed

lemma remove_camera_total: "\<exists>b m'. remove_camera cid m = Inr (b, m')"
proof (cases "map_of (cameras m) cid")
  case None
  then have "remove_camera cid m = Inr (False, m)" by (simp add: remove_camera_def)
  then show ?thesis by blast
next
  case (Some camera)
  from remove_camera_result [OF Some] show ?thesis by blast
qed

lemma registry_step_active:
  assumes a: "active_present m"
  shows "\<exists>m'. registry_step x m = Inr m' \<and> active_present m'"
proof (cases x)
  case (Add cid args)
  then show ?thesis using a by (simp add: add_camera_active)
next
  case (Remove cid)
  obtain b m' where r: "remove_camera cid m = Inr (b, m')" using remove_camera_total by blast
  then show ?thesis using Remove remove_camera_active [OF a r] by simp
next
  case (SetActive cid)
  then show ?thesis using a by (simp add: set_active_camera_active)
qed

lemma registry_run_active:
  "active_present m \<Longrightarrow> \<exists>m'. registry_run ops m = Inr m' \<and> active_present m'"
proof (induction ops arbitrary: m)
  case Nil
  then show ?case by simp
next
  case (Cons x xs)
  from registry_step_active [OF Cons.prems, of x] obtain m1 where
    "registry_step x m = Inr m1" "active_present m1" by blast
  with Cons.IH [of m1] show ?case by simp
qed

text \<open>
  C8. Every sequence of \<open>add\<close>, \<open>remove\<close> and \<open>set_active\<close> on a new registry runs
  to the end and leaves the active camera, if there is one, among the keys of
  \<open>cameras\<close>. Removing the active camera removes exactly its key and leaves as the
  active camera one of the remaining keys, or none when no key remains.
\<close>

theorem registry_active_pointer:
  "(\<exists>m'. registry_run ops init_camera_manager = Inr m' \<and> active_present m')
   \<and> (active_camera_id m = Some cid \<and> cid \<in> fst ` set (cameras m) \<longrightarrow>
        (\<exists>m'. remove_camera cid m = Inr (True, m')
           \<and> fst ` set (cameras m') = fst ` set (cameras m) - {cid}
           \<and> (case active_camera_id m' of
                 None \<Rightarrow> cameras m' = []
               | Some k \<Rightarrow> k \<in> fst ` set (cameras m'))))"
proof -
  have i: "active_present (init_camera_manager :: 'a camera_manager)"
    by (simp add: active_present_def init_camera_manager_def)
  have r: "\<exists>m'. remove_camera cid m = Inr (True, m')
           \<and> fst ` set (cameras m') = fst ` set (cameras m) - {cid}
           \<and> (case active_camera_id m' of
                 None \<Rightarrow> cameras m' = []
               | Some k \<Rightarrow> k \<in> fst ` set (cameras m'))"
    if a: "active_camera_id m = Some cid" and k: "cid \<in> fst ` set (cameras m)"
  proof -
    from k obtain camera where "map_of (cameras m) cid = Some camera"
      using map_of_keys [of "cameras m" cid] by auto
    from remove_camera_result [OF this] a obtain m' where
      m': "remove_camera cid m = Inr (True, m')" "cameras m' = AList.delete cid (cameras m)"
        "active_camera_id m' = (case cameras m' of [] \<Rightarrow> None | e # rest \<Rightarrow> Some (fst e))"
      by auto
    have "fst ` set (cameras m') = fst ` set (cameras m) - {cid}"
      using m'(2) by (simp only: keys_delete)
    moreover have "case active_camera_id m' of None \<Rightarrow> cameras m' = []
               | Some k \<Rightarrow> k \<in> fst ` set (cameras m')"
      using m'(3) by (cases "cameras m'") simp_all
    ultimately show ?thesis using m'(1) by blast
  qed
  show ?thesis using registry_run_active [OF i, of ops] r by blast
qed

text \<open>
  C8 at a registry to which two cameras are added and whose first, active camera is
  then removed, and at the removal of the active camera of a registry of two.
\<close>

theorem registry_active_pointer_witness:
  "(\<exists>m'. registry_run [Add ''a'' camera_args0, Add ''b'' camera_args0, SetActive ''a'', Remove ''a'']
            init_camera_manager = Inr m'
      \<and> active_present m')
   \<and> active_camera_id two_cameras = Some ''cam''
   \<and> ''cam'' \<in> fst ` set (cameras two_cameras)
   \<and> (\<exists>m'. remove_camera ''cam'' two_cameras = Inr (True, m')
         \<and> fst ` set (cameras m') = {''off''}
         \<and> active_camera_id m' = Some ''off'')"
proof -
  have t: "active_camera_id two_cameras = Some ''cam''"
    "fst ` set (cameras two_cameras) = {''cam'', ''off''}"
    by (simp_all add: two_cameras_def)
  have h: "active_camera_id two_cameras = Some ''cam'' \<and> ''cam'' \<in> fst ` set (cameras two_cameras)"
    using t by simp
  note th = registry_active_pointer
      [of "[Add ''a'' camera_args0, Add ''b'' camera_args0, SetActive ''a'', Remove ''a'']"
        two_cameras "''cam''"]
  note run = th [THEN conjunct1]
  from th [THEN conjunct2, THEN mp, OF h] obtain m' where
    m': "remove_camera ''cam'' two_cameras = Inr (True, m')"
      "fst ` set (cameras m') = fst ` set (cameras two_cameras) - {''cam''}"
      "case active_camera_id m' of None \<Rightarrow> cameras m' = [] | Some k \<Rightarrow> k \<in> fst ` set (cameras m')"
    by blast
  have k: "fst ` set (cameras m') = {''off''}" unfolding m'(2) t(2) by simp
  have a: "active_camera_id m' = Some ''off''"
  proof (cases "active_camera_id m'")
    case None
    then have "cameras m' = []" using m'(3) by simp
    then show ?thesis using k by simp
  next
    case (Some x)
    then have "x \<in> {''off''}" using m'(3) k by simp
    then show ?thesis using Some by simp
  qed
  have r: "\<exists>m'. remove_camera ''cam'' two_cameras = Inr (True, m')
         \<and> fst ` set (cameras m') = {''off''}
         \<and> active_camera_id m' = Some ''off''"
    using m'(1) k a by blast
  from run h r show ?thesis by (intro conjI) simp_all
qed

section \<open>The synchronizer loop\<close>

lemma get_frame_pulled:
  "fst (get_frame cam) = (case items (frame_queue cam) of [] \<Rightarrow> dummy_frame cam | f # fs \<Rightarrow> f)"
  by (simp add: get_frame_def q_get_nowait_def split: list.splits)

lemma capture_frame_fields:
  "max_buffer_size (snd (capture_frame clock e st)) = max_buffer_size (snd st)
   \<and> invocations (snd (capture_frame clock e st)) = invocations (snd st)
   \<and> process_callbacks (snd (capture_frame clock e st)) = process_callbacks (snd st)"
  by (simp add: capture_frame_def Let_def split: prod.splits)

lemma capture_frame_history:
  "history (snd (capture_frame clock (k, cam) (m, y))) cid =
     (if cid = k \<and> connection_ok cam
      then capped (max_buffer_size y) (history y k @ [(clock k, fst (get_frame cam))])
      else history y cid)"
  by (simp add: capture_frame_def Let_def history_def update_conv')

lemma capture_frame_cameras:
  "map_of (cameras (fst (capture_frame clock (k, cam) (m, y)))) cid =
     (if cid = k \<and> connection_ok cam then Some (snd (get_frame cam))
      else map_of (cameras m) cid)"
  by (simp add: capture_frame_def Let_def update_conv')

lemma fold_capture_fields:
  "max_buffer_size (snd (fold (capture_frame clock) es st)) = max_buffer_size (snd st)
   \<and> invocations (snd (fold (capture_frame clock) es st)) = invocations (snd st)
   \<and> process_callbacks (snd (fold (capture_frame clock) es st)) = process_callbacks (snd st)"
  by (induction es arbitrary: st) (simp_all add: capture_frame_fields)

lemma fold_capture_history:
  "distinct (map fst es) \<Longrightarrow>
   history (snd (fold (capture_frame clock) es (m, y))) cid =
     (case map_of es cid of
        None \<Rightarrow> history y cid
      | Some cam \<Rightarrow>
          if connection_ok cam
          then capped (max_buffer_size y) (history y cid @ [(clock cid, fst (get_frame cam))])
          else history y cid)"
proof (induction es arbitrary: m y)
  case Nil
  then show ?case by simp
next
  case (Cons e es)
  obtain k cam where e: "e = (k, cam)" by (cases e)
  obtain m1 y1 where st: "capture_frame clock (k, cam) (m, y) = (m1, y1)"
    by (cases "capture_frame clock (k, cam) (m, y)")
  have d: "distinct (map fst es)" "k \<notin> fst ` set es" using Cons.prems e by simp_all
  have h: "history y1 cid =
     (if cid = k \<and> connection_ok cam
      then capped (max_buffer_size y) (history y k @ [(clock k, fst (get_frame cam))])
      else history y cid)"
    using capture_frame_history [of clock k cam m y cid] st by simp
  have mx: "max_buffer_size y1 = max_buffer_size y"
    using capture_frame_fields [of clock "(k, cam)" "(m, y)"] st by simp
  note ih = Cons.IH [OF d(1), of m1 y1]
  show ?case
  proof (cases "cid = k")
    case True
    then have "map_of es cid = None" using d(2) by (simp add: map_of_eq_None_iff)
    then show ?thesis using ih h True e st by simp
  next
    case False
    then show ?thesis using ih h e st mx by (simp split: option.splits)
  qed
qed

lemma fold_capture_cameras:
  "distinct (map fst es) \<Longrightarrow>
   map_of (cameras (fst (fold (capture_frame clock) es (m, y)))) cid =
     (case map_of es cid of
        None \<Rightarrow> map_of (cameras m) cid
      | Some cam \<Rightarrow>
          if connection_ok cam then Some (snd (get_frame cam)) else map_of (cameras m) cid)"
proof (induction es arbitrary: m y)
  case Nil
  then show ?case by simp
next
  case (Cons e es)
  obtain k cam where e: "e = (k, cam)" by (cases e)
  obtain m1 y1 where st: "capture_frame clock (k, cam) (m, y) = (m1, y1)"
    by (cases "capture_frame clock (k, cam) (m, y)")
  have d: "distinct (map fst es)" "k \<notin> fst ` set es" using Cons.prems e by simp_all
  have h: "map_of (cameras m1) cid =
     (if cid = k \<and> connection_ok cam then Some (snd (get_frame cam)) else map_of (cameras m) cid)"
    using capture_frame_cameras [of clock k cam m y cid] st by simp
  note ih = Cons.IH [OF d(1), of m1 y1]
  show ?case
  proof (cases "cid = k")
    case True
    then have "map_of es cid = None" using d(2) by (simp add: map_of_eq_None_iff)
    then show ?thesis using ih h True e st by simp
  next
    case False
    then show ?thesis using ih h e st by (simp split: option.splits)
  qed
qed

lemma fold_invoke:
  "fold (invoke callback) bs z = z\<lparr>invocations := invocations z @ calls callback bs\<rparr>"
  by (induction bs arbitrary: z) (auto simp add: invoke_def calls_def)

lemma fold_invoke_all:
  "fold (\<lambda>callback. fold (invoke callback) bs) cs z =
     z\<lparr>invocations := invocations z @ concat (map (\<lambda>callback. calls callback bs) cs)\<rparr>"
  by (induction cs arbitrary: z) (simp_all add: fold_invoke)

lemma process_frames_invocations:
  "invocations (process_frames y) =
     invocations y @ concat (map (\<lambda>callback. calls callback (frame_buffers y)) (process_callbacks y))
   \<and> frame_buffers (process_frames y) = frame_buffers y"
  by (simp add: process_frames_def Let_def fold_invoke_all calls_def)

lemma process_frames_history: "history (process_frames y) cid = history y cid"
  using process_frames_invocations [of y] by (simp add: history_def)

lemma capped_snoc:
  "capped 30 (h @ [x]) = (if 30 \<le> length h then tl h @ [x] else h @ [x])"
  by (cases h) (auto simp add: capped_def)

lemma sync_iteration_bound:
  "max_buffer_size (snd (sync_iteration clock (m, y))) = max_buffer_size y"
  using fold_capture_fields [of clock "cameras m" "(m, y)"]
  by (simp add: sync_iteration_def capture_all_frames_def Let_def process_frames_def
      fold_invoke_all)

text \<open>
  C4, as amended. In one iteration of the synchronizer loop, over a registry with
  distinct keys and with the bound of 30 entries that the constructor sets, the
  history of every connected camera receives one more entry, the clock reading with
  the frame that \<open>get_frame\<close> returns, which is the oldest buffered frame of the
  camera or its placeholder frame when nothing is buffered, and that frame leaves the
  buffer of the camera; a history that held 30 entries or more loses its first
  entry, so a history of at most 30 entries stays so. The history of a camera that
  is not connected is unchanged, and the bound is still 30 afterwards. Then every
  callback is invoked, in the order of registration, once for each camera with a
  history that is not empty, with the last frame of that history.
\<close>

theorem sync_iteration_frames:
  assumes "distinct (map fst (cameras m))" and "(cid, cam) \<in> set (cameras m)"
    and "max_buffer_size y = 30"
  shows "history (snd (sync_iteration clock (m, y))) cid =
           (if connection_ok cam
            then (if 30 \<le> length (history y cid) then tl (history y cid) else history y cid)
                 @ [(clock cid,
                     case items (frame_queue cam) of [] \<Rightarrow> dummy_frame cam | f # fs \<Rightarrow> f)]
            else history y cid)
     \<and> (length (history y cid) \<le> 30 \<longrightarrow>
          length (history (snd (sync_iteration clock (m, y))) cid) \<le> 30)
     \<and> max_buffer_size (snd (sync_iteration clock (m, y))) = 30
     \<and> map_of (cameras (fst (sync_iteration clock (m, y)))) cid =
           Some (if connection_ok cam then snd (get_frame cam) else cam)
     \<and> invocations (snd (sync_iteration clock (m, y))) =
           invocations y @
           concat (map (\<lambda>callback. calls callback (frame_buffers (snd (sync_iteration clock (m, y)))))
                     (process_callbacks y))"
proof -
  let ?st = "fold (capture_frame clock) (cameras m) (m, y)"
  let ?new = "(clock cid, case items (frame_queue cam) of [] \<Rightarrow> dummy_frame cam | f # fs \<Rightarrow> f)"
  have mo: "map_of (cameras m) cid = Some cam"
    using assms(1,2) by simp
  have s: "sync_iteration clock (m, y) = (fst ?st, process_frames (snd ?st))"
    by (simp add: sync_iteration_def capture_all_frames_def Let_def)
  have "history (snd ?st) cid =
           (if connection_ok cam
            then capped 30 (history y cid @ [?new])
            else history y cid)"
    using fold_capture_history [OF assms(1), of clock m y cid] mo assms(3)
    by (simp add: get_frame_pulled)
  then have h: "history (snd (sync_iteration clock (m, y))) cid =
           (if connection_ok cam
            then (if 30 \<le> length (history y cid) then tl (history y cid) else history y cid)
                 @ [?new]
            else history y cid)"
    unfolding s by (simp add: process_frames_history capped_snoc)
  have l: "length (history y cid) \<le> 30 \<longrightarrow>
          length (history (snd (sync_iteration clock (m, y))) cid) \<le> 30"
    unfolding h by auto
  have b: "max_buffer_size (snd (sync_iteration clock (m, y))) = 30"
    using sync_iteration_bound [of clock m y] assms(3) by simp
  have c: "map_of (cameras (fst (sync_iteration clock (m, y)))) cid =
           Some (if connection_ok cam then snd (get_frame cam) else cam)"
    unfolding s using fold_capture_cameras [OF assms(1), of clock m y cid] mo by simp
  have f: "invocations (snd ?st) = invocations y" "process_callbacks (snd ?st) = process_callbacks y"
    using fold_capture_fields [of clock "cameras m" "(m, y)"] by simp_all
  have i: "invocations (snd (sync_iteration clock (m, y))) =
           invocations y @
           concat (map (\<lambda>callback. calls callback (frame_buffers (snd (sync_iteration clock (m, y)))))
                     (process_callbacks y))"
    unfolding s using f process_frames_invocations [of "snd ?st"] by simp
  from h l b c i show ?thesis by (intro conjI)
qed

text \<open>
  C4 at a registry with a connected camera that has frames 1 and 2 buffered and a
  camera that is not connected: with a new synchronizer, and with a synchronizer
  that holds 30 entries for the connected camera.
\<close>

theorem sync_iteration_frames_witness:
  "distinct (map fst (cameras two_cameras))
   \<and> (''cam'', live_camera) \<in> set (cameras two_cameras)
   \<and> (''off'', waiting_source) \<in> set (cameras two_cameras)
   \<and> max_buffer_size idle_sync = 30 \<and> max_buffer_size full_sync = 30
   \<and> history (snd (sync_iteration clock0 (two_cameras, idle_sync))) ''cam'' = [(5, 1)]
   \<and> history (snd (sync_iteration clock0 (two_cameras, idle_sync))) ''off'' = []
   \<and> map_of (cameras (fst (sync_iteration clock0 (two_cameras, idle_sync)))) ''off''
       = Some waiting_source
   \<and> length (history full_sync ''cam'') = 30
   \<and> history (snd (sync_iteration clock0 (two_cameras, full_sync))) ''cam''
       = tl old_entries @ [(5, 1)]
   \<and> length (history (snd (sync_iteration clock0 (two_cameras, full_sync))) ''cam'') = 30"
proof -
  have d: "distinct (map fst (cameras two_cameras))"
    "(''cam'', live_camera) \<in> set (cameras two_cameras)"
    "(''off'', waiting_source) \<in> set (cameras two_cameras)"
    by (simp_all add: two_cameras_def)
  have w: "\<not> connection_ok waiting_source"
    by (simp add: waiting_source_def rtsp_source_def init_video_source_def start_def)
  have l: "connection_ok live_camera" "items (frame_queue live_camera) = [1, 2]"
    by (simp_all add: live_camera_def)
  have i: "history idle_sync ''cam'' = []" "history idle_sync ''off'' = []"
    "max_buffer_size idle_sync = 30"
    by (simp_all add: idle_sync_def set_process_callback_def init_sync_manager_def history_def)
  have o: "length old_entries = 30" by (simp add: old_entries_def)
  have f: "history full_sync ''cam'' = old_entries" "max_buffer_size full_sync = 30"
    using i(3) by (simp_all add: full_sync_def history_def)
  note new_cam = sync_iteration_frames [OF d(1) d(2) i(3), of clock0]
  note new_off = sync_iteration_frames [OF d(1) d(3) i(3), of clock0]
  note full_cam = sync_iteration_frames [OF d(1) d(2) f(2), of clock0]
  have 1: "history (snd (sync_iteration clock0 (two_cameras, idle_sync))) ''cam'' = [(5, 1)]"
    using new_cam l i by (simp add: clock0_def)
  have 2: "history (snd (sync_iteration clock0 (two_cameras, idle_sync))) ''off'' = []"
    "map_of (cameras (fst (sync_iteration clock0 (two_cameras, idle_sync)))) ''off''
       = Some waiting_source"
    using new_off w i by simp_all
  have 3: "history (snd (sync_iteration clock0 (two_cameras, full_sync))) ''cam''
       = tl old_entries @ [(5, 1)]"
    using full_cam l f o by (simp add: clock0_def)
  have 4: "length (history (snd (sync_iteration clock0 (two_cameras, full_sync))) ''cam'') = 30"
    unfolding 3 using o by simp
  show ?thesis using d i(3) f o 1 2 3 4 by simp
qed

text \<open>
  C4 as stated fails at a connected camera with frames 1 and 2 buffered: the frame
  pulled and passed to the callback is 1, the oldest, and the newest available frame
  is 2.
\<close>

theorem sync_pulls_oldest_frame:
  "items (frame_queue live_camera) = [1, 2]
   \<and> history (snd (sync_iteration clock0 (two_cameras, idle_sync))) ''cam'' = [(5, 1)]
   \<and> invocations (snd (sync_iteration clock0 (two_cameras, idle_sync))) = [(7, ''cam'', 1)]
   \<and> snd (last (history (snd (sync_iteration clock0 (two_cameras, idle_sync))) ''cam''))
       \<noteq> last (items (frame_queue live_camera))"
  by (simp add: sync_iteration_def capture_all_frames_def capture_frame_def process_frames_def
      invoke_def history_def capped_def get_frame_def q_get_nowait_def Let_def clock0_def
      two_cameras_def idle_sync_def set_process_callback_def init_sync_manager_def
      live_camera_def waiting_source_def rtsp_source_def init_video_source_def start_def)

end
